theory Spec2Isabelle
  imports Complex_Main
begin

section \<open>Data model\<close>

text \<open>
  The exceptions the modelled code can raise. \<open>DiscordApiError\<close> is the program's own
  exception class; it stores nothing but the message built by its constructor. The others are
  Python's built-in exceptions (and the one \<open>requests\<close> raises when no response arrives).
\<close>

datatype error =
    DiscordApiError string
  | AssertionError string
  | IndexError
  | KeyError
  | AttributeError
  | ValueError
  | ConnectionError
  | UnboundLocalError

text \<open>Python's \<open>str\<close> of an integer, as the f-strings of the source use it.\<close>

definition digit_chars :: string where
  "digit_chars = ''0123456789''"

fun str_nat :: "nat \<Rightarrow> string" where
  "str_nat n = (if n < 10 then [digit_chars ! n]
                else str_nat (n div 10) @ [digit_chars ! (n mod 10)])"

declare str_nat.simps [simp del]

definition str_int :: "int \<Rightarrow> string" where
  "str_int i = (if i < 0 then CHR ''-'' # str_nat (nat (- i)) else str_nat (nat i))"

text \<open>
  \<open>DiscordApiError.__init__(http_code, details)\<close>: the message is the details, prefixed by the
  HTTP code when that is positive.
\<close>

definition DiscordApiError_init :: "int \<Rightarrow> string \<Rightarrow> error" where
  "DiscordApiError_init http_code details =
     DiscordApiError ((if http_code > 0 then ''[HTTP code: '' @ str_int http_code @ ''] '' else '''')
                      @ details)"

text \<open>
  A message of a search result: the fields the program reads. \<open>hit\<close> is \<open>None\<close> when the key is
  absent from the message. \<open>message_id\<close> and \<open>channel_id\<close> are the values of \<open>int(message['id'])\<close> and
  \<open>int(message['channel_id'])\<close>.
\<close>

record message =
  message_id :: int
  channel_id :: int
  timestamp :: string
  hit :: "bool option"

text \<open>
  What \<open>res.json()\<close> gives: a search page (\<open>total_results\<close> and the message blocks), the body
  of a rate-limit answer (\<open>retry_after\<close>, a whole number of milliseconds), or any other JSON
  value, in which the keys the program reads are missing.
\<close>

datatype body =
    SearchPage int "message list list"
  | RateLimited int
  | OtherBody

record response =
  status_code :: int
  res_text :: string
  json :: body

text \<open>One call of \<open>Session.request(method, url, params, data)\<close>.\<close>

datatype param = PInt int | PBool bool | PStr string

record http_call =
  http_method :: string
  url :: string
  params :: "(string \<times> param) list"
  data :: "string option"

text \<open>
  The observable effects of a run, in the order they happen: blocking sleeps (seconds), HTTP
  calls and log records. Durations are exact rationals, so \<open>retry_after / 1000\<close> is the exact
  quotient. \<open>default_sleep\<close> is not negative (the command line accepts no other value).
\<close>

datatype level = INFO | WARNING | CRITICAL

datatype event =
    Sleep rat
  | Http http_call
  | Log level string

text \<open>
  The remote service is the sequence of responses it gives to the successive HTTP calls of the
  run. When the sequence is used up the session raises instead of returning a response.
\<close>

type_synonym world = "response list"

type_synonym trace = "event list"

section \<open>Transport client\<close>

definition API_URL :: string where
  "API_URL = ''https://discordapp.com/api/v6''"

text \<open>The class dictionary \<open>HTTP_CODE_MESSAGES\<close>: six integer keys and the string key \<open>'5xx'\<close>.\<close>

datatype dict_key = IntKey int | StrKey string

definition HTTP_CODE_MESSAGES :: "(dict_key \<times> string) list" where
  "HTTP_CODE_MESSAGES =
    [(IntKey 400, ''The request was improperly formatted, or the server couldn't understand it.''),
     (IntKey 401, ''The Authorization header was missing or invalid.''),
     (IntKey 403, ''The Authorization token you passed did not have permission to the resource.''),
     (IntKey 404, ''The resource at the location specified doesn't exist.''),
     (IntKey 405, ''The HTTP method used is not valid for the location specified.''),
     (IntKey 502, ''There was not a gateway available to process your request. Wait a bit and retry.''),
     (StrKey ''5xx'', ''The server had an error processing your request.'')]"

definition RATE_LIMITED_RETRY :: nat where
  "RATE_LIMITED_RETRY = 5"

text \<open>\<open>HTTP_CODE_MESSAGES[k]\<close> for a key that is present.\<close>

definition code_message :: "dict_key \<Rightarrow> string" where
  "code_message k = (case map_of HTTP_CODE_MESSAGES k of Some m \<Rightarrow> m | None \<Rightarrow> '''')"

text \<open>
  The \<open>for i in range(RATE_LIMITED_RETRY)\<close> loop of \<open>_request\<close>, with the number of iterations
  left. The result is \<open>Inl e\<close> when the body raises \<open>e\<close>, \<open>Inr (Some res)\<close> when it returns
  \<open>res\<close>, and \<open>Inr None\<close> when the loop runs out.
\<close>

fun attempts :: "nat \<Rightarrow> http_call \<Rightarrow> world \<Rightarrow> (error + response option) \<times> world \<times> trace" where
  "attempts 0 c w = (Inr None, w, [])"
| "attempts (Suc n) c [] = (Inl ConnectionError, [], [Http c])"
| "attempts (Suc n) c (res # w) =
     (if map_of HTTP_CODE_MESSAGES (IntKey (status_code res)) \<noteq> None then
        (Inl (DiscordApiError_init (status_code res)
               (code_message (IntKey (status_code res)) @ [CHR 0x0A] @ res_text res)),
         w, [Http c])
      else if 500 \<le> status_code res \<and> status_code res < 600 then
        (Inl (DiscordApiError_init (status_code res) (code_message (StrKey ''5xx''))),
         w, [Http c])
      else if status_code res = 429 then
        (case json res of
           RateLimited retry_after \<Rightarrow>
             (let warn = Log WARNING (''Rate limited. We will sleep '' @ str_int retry_after
                                      @ '' ms, and retry it.'')
              in if retry_after < 0 then (Inl ValueError, w, [Http c, warn])
                 else (case attempts n c w of
                         (r, w', t) \<Rightarrow>
                           (r, w', [Http c, warn, Sleep (of_int retry_after / 1000)] @ t)))
         | _ \<Rightarrow> (Inl KeyError, w, [Http c]))
      else (Inr (Some res), w, [Http c]))"

text \<open>
  \<open>Crawler._request\<close>: one sleep of \<open>default_sleep\<close>, the loop, and the critical log record
  after a loop that ran out, after which the method returns \<open>None\<close>.
\<close>

definition request ::
  "rat \<Rightarrow> string \<Rightarrow> string \<Rightarrow> (string \<times> param) list \<Rightarrow> string option \<Rightarrow> world
     \<Rightarrow> (error + response option) \<times> world \<times> trace" where
  "request default_sleep meth path ps dat w =
     (case attempts RATE_LIMITED_RETRY
             \<lparr>http_method = meth, url = API_URL @ path, params = ps, data = dat\<rparr> w of
        (Inr None, w', t) \<Rightarrow>
          (Inr None, w',
           Sleep default_sleep # t
             @ [Log CRITICAL (''Failed to request it, although we tried at ''
                              @ str_int (int RATE_LIMITED_RETRY) @ '' times.'')])
      | (r, w', t) \<Rightarrow> (r, w', Sleep default_sleep # t))"

section \<open>Search paginator\<close>

text \<open>\<open>'hit' in message and message['hit']\<close>.\<close>

definition is_hit :: "message \<Rightarrow> bool" where
  "is_hit m = (case hit m of None \<Rightarrow> False | Some h \<Rightarrow> h)"

text \<open>\<open>list(filter(..., message_block))[0]\<close>: the first flagged message of a block.\<close>

definition first_hit :: "message list \<Rightarrow> error + message" where
  "first_hit message_block =
     (case filter is_hit message_block of [] \<Rightarrow> Inl IndexError | m # _ \<Rightarrow> Inr m)"

text \<open>\<open>list(map(..., messages))\<close>: the blocks are visited in order, the first failure raises.\<close>

fun extract_hits :: "message list list \<Rightarrow> error + message list" where
  "extract_hits [] = Inr []"
| "extract_hits (b # bs) =
     (case first_hit b of
        Inl e \<Rightarrow> Inl e
      | Inr m \<Rightarrow> (case extract_hits bs of Inl e \<Rightarrow> Inl e | Inr ms \<Rightarrow> Inr (m # ms)))"

text \<open>\<open>str.lower\<close> on ASCII letters.\<close>

definition lower_char :: "char \<Rightarrow> char" where
  "lower_char c =
     (case map_of (zip ''ABCDEFGHIJKLMNOPQRSTUVWXYZ'' ''abcdefghijklmnopqrstuvwxyz'') c of
        Some l \<Rightarrow> l
      | None \<Rightarrow> c)"

definition lower :: "string \<Rightarrow> string" where
  "lower s = map lower_char s"

text \<open>The check of \<open>room_type\<close> at the start of the generator body, and the path segment.\<close>

definition room_segment :: "string \<Rightarrow> error + string" where
  \<open>room_segment room_type =
     (if lower room_type \<in> set [''channel'', ''guild''] then Inr (lower room_type @ ''s'')
      else Inl (AssertionError
        ''Invalid room_type argument. room_type should be either "channel" or "guild".''))\<close>

text \<open>The locals of the generator that change while it runs.\<close>

record cursor =
  offset :: int
  total_results_size :: int
  newest_message_id :: int

text \<open>
  What one \<open>next()\<close> on the generator does: it yields a pair and suspends (the cursor is the
  one the generator resumes with, \<open>newest_message_id\<close> already narrowed as the statement after
  the \<open>yield\<close> does), it finishes, or it raises.
\<close>

datatype gen_step =
    Yield "int \<times> message list" cursor
  | StopIteration
  | Raise error

definition search_path :: "string \<Rightarrow> int \<Rightarrow> string" where
  "search_path room_type room_id = ''/'' @ room_type @ ''/'' @ str_int room_id @ ''/messages/search''"

definition search_params :: "int \<Rightarrow> int \<Rightarrow> (string \<times> param) list" where
  "search_params author_id off =
     [(''author_id'', PInt author_id), (''include_nsfw'', PBool True),
      (''offset'', PInt off), (''sort_by'', PStr ''timestamp'')]"

text \<open>
  What an iteration of the \<open>while True\<close> loop does with what \<open>_request\<close> returned:
  \<open>Inl\<close> is how the generator leaves the loop or suspends, \<open>Inr\<close> is \<open>continue\<close> with the
  cursor given.
\<close>

definition handle_page :: "int \<Rightarrow> cursor \<Rightarrow> response option \<Rightarrow> gen_step + cursor" where
  "handle_page oldest_message_id cur r =
     (case r of
        None \<Rightarrow> Inl (Raise AttributeError)
      | Some res \<Rightarrow>
          (case json res of
             SearchPage total_results blocks \<Rightarrow>
               (case extract_hits blocks of
                  Inl e \<Rightarrow> Inl (Raise e)
                | Inr messages \<Rightarrow>
                    (let unfiltered_results_size = int (length messages)
                     in if unfiltered_results_size = 0 \<or> message_id (hd messages) < oldest_message_id
                        then Inl StopIteration
                        else
                          (let filtered =
                                 filter (\<lambda>m. oldest_message_id \<le> message_id m
                                                \<and> message_id m \<le> newest_message_id cur) messages;
                               filtered_results_size = int (length filtered)
                           in if filtered_results_size = 0
                              then Inr (cur\<lparr>offset := offset cur + unfiltered_results_size\<rparr>)
                              else Inl (Yield
                                     (total_results_size cur + filtered_results_size, filtered)
                                     (cur\<lparr>total_results_size :=
                                             total_results_size cur + filtered_results_size,
                                           newest_message_id := message_id (last filtered) - 1\<rparr>)))))
           | _ \<Rightarrow> Inl (Raise KeyError)))"

lemma handle_page_None:
  "handle_page oldest_message_id cur None = Inl (Raise AttributeError)"
  by (simp add: handle_page_def)

lemma handle_page_continue:
  "handle_page oldest_message_id cur r = Inr cur' \<Longrightarrow> \<exists>res. r = Some res"
  by (cases r) (simp_all add: handle_page_def)

lemma attempts_shrinks:
  "attempts n c w = (Inr (Some res), w', t) \<Longrightarrow> length w' < length w"
proof (induction n c w arbitrary: t rule: attempts.induct)
  case (3 n c r w)
  then show ?case
    by (auto split: if_splits body.splits prod.splits simp: Let_def less_Suc_eq)
qed simp_all

lemma request_shrinks:
  "request ds meth path ps dat w = (Inr (Some res), w', t) \<Longrightarrow> length w' < length w"
  unfolding request_def
  by (auto split: prod.splits sum.splits option.splits dest: attempts_shrinks)

text \<open>
  The generator body from the top of the \<open>while True\<close> loop to the next \<open>yield\<close>, \<open>break\<close> or
  exception.
\<close>

function search_loop ::
  "rat \<Rightarrow> string \<Rightarrow> int \<Rightarrow> int \<Rightarrow> int \<Rightarrow> cursor \<Rightarrow> world \<Rightarrow> gen_step \<times> world \<times> trace" where
  "search_loop ds room_type room_id author_id oldest_message_id cur w =
     (case request ds ''get'' (search_path room_type room_id)
             (search_params author_id (offset cur)) None w of
        (Inl e, w', t) \<Rightarrow> (Raise e, w', t)
      | (Inr r, w', t) \<Rightarrow>
          (case handle_page oldest_message_id cur r of
             Inl step \<Rightarrow> (step, w', t)
           | Inr cur' \<Rightarrow>
               (case search_loop ds room_type room_id author_id oldest_message_id cur' w' of
                  (step, w'', t') \<Rightarrow> (step, w'', t @ t'))))"
  by pat_completeness auto
termination
proof (relation "measure (\<lambda>(ds, room_type, room_id, author_id, oldest, cur, w). length w)")
  show "wf (measure (\<lambda>(ds, room_type, room_id, author_id, oldest, cur, w). length w))"
    by simp
qed (auto dest!: handle_page_continue dest: request_shrinks [OF sym])

declare search_loop.simps [simp del]

lemma attempts_length:
  "attempts n c w = (r, w', t) \<Longrightarrow> length w' \<le> length w"
proof (induction n c w arbitrary: r t rule: attempts.induct)
  case (3 n c res w)
  then show ?case
    by (auto split: if_splits body.splits prod.splits simp: Let_def le_Suc_eq)
qed auto

lemma request_length:
  "request ds meth path ps dat w = (r, w', t) \<Longrightarrow> length w' \<le> length w"
  unfolding request_def
  by (auto split: prod.splits sum.splits option.splits dest: attempts_length)

lemma search_loop_raise:
  "request ds ''get'' (search_path room_type room_id)
     (search_params author_id (offset cur)) None w = (Inl e, w1, t1)
   \<Longrightarrow> search_loop ds room_type room_id author_id oldest_message_id cur w = (Raise e, w1, t1)"
  by (subst search_loop.simps) simp

lemma search_loop_leave:
  "request ds ''get'' (search_path room_type room_id)
     (search_params author_id (offset cur)) None w = (Inr ro, w1, t1)
   \<Longrightarrow> handle_page oldest_message_id cur ro = Inl step
   \<Longrightarrow> search_loop ds room_type room_id author_id oldest_message_id cur w = (step, w1, t1)"
  by (subst search_loop.simps) simp

lemma search_loop_continue:
  "request ds ''get'' (search_path room_type room_id)
     (search_params author_id (offset cur)) None w = (Inr ro, w1, t1)
   \<Longrightarrow> handle_page oldest_message_id cur ro = Inr cur'
   \<Longrightarrow> search_loop ds room_type room_id author_id oldest_message_id cur' w1 = (step, w2, t2)
   \<Longrightarrow> search_loop ds room_type room_id author_id oldest_message_id cur w
         = (step, w2, t1 @ t2)"
  by (subst search_loop.simps) simp

lemma search_loop_length:
  "search_loop ds room_type room_id author_id oldest_message_id cur w = (step, w', t)
     \<Longrightarrow> length w' \<le> length w"
proof (induction ds room_type room_id author_id oldest_message_id cur w arbitrary: step w' t
       rule: search_loop.induct)
  case (1 ds room_type room_id author_id oldest_message_id cur w)
  obtain r w1 t1 where req:
    "request ds ''get'' (search_path room_type room_id)
       (search_params author_id (offset cur)) None w = (r, w1, t1)"
    by (metis prod_cases3)
  have le1: "length w1 \<le> length w"
    using req by (rule request_length)
  show ?case
  proof (cases r)
    case (Inl e)
    with "1.prems" req le1 show ?thesis
      by (simp add: search_loop_raise)
  next
    case (Inr ro)
    show ?thesis
    proof (cases "handle_page oldest_message_id cur ro")
      case (Inl step')
      with "1.prems" req Inr le1 show ?thesis
        by (simp add: search_loop_leave)
    next
      case hp: (Inr cur')
      obtain s2 w2 t2 where rec:
        "search_loop ds room_type room_id author_id oldest_message_id cur' w1 = (s2, w2, t2)"
        by (metis prod_cases3)
      have "length w2 \<le> length w1"
        using "1.IH" [OF req [symmetric] Inr refl hp rec] .
      moreover have "w' = w2"
        using "1.prems" search_loop_continue [OF req [unfolded Inr] hp rec] by simp
      ultimately show ?thesis
        using le1 by simp
    qed
  qed
qed

lemma search_loop_Yield_shrinks:
  assumes a: "search_loop ds room_type room_id author_id oldest_message_id cur w
                = (Yield y cur', w', t)"
  shows "length w' < length w"
proof -
  obtain r w1 t1 where req:
    "request ds ''get'' (search_path room_type room_id)
       (search_params author_id (offset cur)) None w = (r, w1, t1)"
    by (metis prod_cases3)
  show ?thesis
  proof (cases r)
    case (Inl e)
    with a req show ?thesis
      by (simp add: search_loop_raise)
  next
    case (Inr ro)
    show ?thesis
    proof (cases "handle_page oldest_message_id cur ro")
      case (Inl step')
      then have "ro \<noteq> None"
        using a search_loop_leave [OF req [unfolded Inr] Inl]
        by (cases ro) (simp_all add: handle_page_None)
      then have "length w1 < length w"
        using req Inr by (auto dest: request_shrinks)
      with a search_loop_leave [OF req [unfolded Inr] Inl] show ?thesis
        by simp
    next
      case hp: (Inr cur2)
      then obtain res where "ro = Some res"
        by (auto dest: handle_page_continue)
      then have lt: "length w1 < length w"
        using req Inr by (auto dest: request_shrinks)
      obtain s2 w2 t2 where rec:
        "search_loop ds room_type room_id author_id oldest_message_id cur2 w1 = (s2, w2, t2)"
        by (metis prod_cases3)
      have "length w2 \<le> length w1"
        using rec by (rule search_loop_length)
      moreover have "w' = w2"
        using a search_loop_continue [OF req [unfolded Inr] hp rec] by simp
      ultimately show ?thesis
        using lt by simp
    qed
  qed
qed

text \<open>
  The generator run to its end by a consumer that makes no HTTP call of its own, as
  \<open>list(generator)\<close> does: the pairs yielded, the exception that ended the run if one did, the
  rest of the responses and the effects.
\<close>

function yields ::
  "rat \<Rightarrow> string \<Rightarrow> int \<Rightarrow> int \<Rightarrow> int \<Rightarrow> cursor \<Rightarrow> world
     \<Rightarrow> (int \<times> message list) list \<times> error option \<times> world \<times> trace" where
  "yields ds room_type room_id author_id oldest_message_id cur w =
     (case search_loop ds room_type room_id author_id oldest_message_id cur w of
        (Yield y cur', w', t) \<Rightarrow>
          (case yields ds room_type room_id author_id oldest_message_id cur' w' of
             (ys, e, w'', t') \<Rightarrow> (y # ys, e, w'', t @ t'))
      | (StopIteration, w', t) \<Rightarrow> ([], None, w', t)
      | (Raise e, w', t) \<Rightarrow> ([], Some e, w', t))"
  by pat_completeness auto
termination
proof (relation "measure (\<lambda>(ds, room_type, room_id, author_id, oldest, cur, w). length w)")
  show "wf (measure (\<lambda>(ds, room_type, room_id, author_id, oldest, cur, w). length w))"
    by simp
qed (auto dest: search_loop_Yield_shrinks [OF sym])

declare yields.simps [simp del]

text \<open>
  \<open>Crawler.search_messages_by_author_id\<close>, consumed to its end: the locals are initialised and
  \<open>room_type\<close> is checked when the generator body starts.
\<close>

definition search_messages_by_author_id ::
  "rat \<Rightarrow> int \<Rightarrow> string \<Rightarrow> int \<Rightarrow> int \<Rightarrow> int \<Rightarrow> world
     \<Rightarrow> (int \<times> message list) list \<times> error option \<times> world \<times> trace" where
  "search_messages_by_author_id ds room_id room_type author_id oldest_message_id newest_id w =
     (case room_segment room_type of
        Inl e \<Rightarrow> ([], Some e, w, [])
      | Inr room_type' \<Rightarrow>
          yields ds room_type' room_id author_id oldest_message_id
            \<lparr>offset = 0, total_results_size = 0, newest_message_id = newest_id\<rparr> w)"

section \<open>Mutation driver\<close>

definition message_path :: "int \<Rightarrow> int \<Rightarrow> string" where
  "message_path channel message = ''/channels/'' @ str_int channel @ ''/messages/'' @ str_int message"

text \<open>
  \<open>Crawler.modify_channel_message_by_message_id\<close>. Only \<open>DiscordApiError\<close> is caught; whatever
  \<open>_request\<close> returns, the method returns \<open>True\<close>.
\<close>

definition modify_channel_message_by_message_id ::
  "rat \<Rightarrow> int \<Rightarrow> int \<Rightarrow> string \<Rightarrow> world \<Rightarrow> (error + bool) \<times> world \<times> trace" where
  \<open>modify_channel_message_by_message_id ds channel message replace_to w =
     (case request ds ''patch'' (message_path channel message) []
             (Some (''{"content": "'' @ replace_to @ ''"}'')) w of
        (Inl (DiscordApiError msg), w', t) \<Rightarrow>
          (Inr False, w',
           t @ [Log WARNING '''', Log WARNING msg,
                Log WARNING ''Skip this message which cannot be done to modify.''])
      | (Inl e, w', t) \<Rightarrow> (Inl e, w', t)
      | (Inr res, w', t) \<Rightarrow> (Inr True, w', t))\<close>

text \<open>\<open>Crawler.delete_channel_message_by_message_id\<close>, of the same shape.\<close>

definition delete_channel_message_by_message_id ::
  "rat \<Rightarrow> int \<Rightarrow> int \<Rightarrow> world \<Rightarrow> (error + bool) \<times> world \<times> trace" where
  "delete_channel_message_by_message_id ds channel message w =
     (case request ds ''delete'' (message_path channel message) [] None w of
        (Inl (DiscordApiError msg), w', t) \<Rightarrow>
          (Inr False, w',
           t @ [Log WARNING '''', Log WARNING msg,
                Log WARNING ''Skip this message which cannot be done to delete.''])
      | (Inl e, w', t) \<Rightarrow> (Inl e, w', t)
      | (Inr res, w', t) \<Rightarrow> (Inr True, w', t))"

section \<open>Run orchestrator\<close>

text \<open>
  The locals of \<open>main\<close> that its loops change. \<open>first_message_id\<close> is the local
  \<open>newest_message_id\<close> of \<open>main\<close> (0 until the first message is seen); \<open>last_message\<close> is
  the loop variable \<open>message\<close>, which keeps its last value after the loops; it and
  \<open>newest_message_datetime\<close> are unbound until a message is processed. \<open>random_calls\<close> counts the calls of \<open>generate_random\<close>, whose results are given by
  a function of the call's number.
\<close>

record run =
  first_message_id :: int
  newest_message_datetime :: "string option"
  failed_count :: int
  replace_to :: string
  last_message :: "message option"
  random_calls :: nat

text \<open>The body of \<open>for message in messages\<close>.\<close>

definition process_message ::
  "rat \<Rightarrow> string \<Rightarrow> (nat \<Rightarrow> string) \<Rightarrow> run \<Rightarrow> message \<Rightarrow> world \<Rightarrow> (error + run) \<times> world \<times> trace" where
  "process_message ds replace_before_delete generate_random st msg w =
     (let st1 = (if first_message_id st = 0
                 then st\<lparr>first_message_id := message_id msg,
                         newest_message_datetime := Some (timestamp msg)\<rparr>
                 else st);
          st2 = st1\<lparr>last_message := Some msg\<rparr>;
          st3 = (if replace_before_delete \<noteq> ''none'' \<and> replace_before_delete = ''random''
                 then st2\<lparr>replace_to := generate_random (random_calls st2),
                          random_calls := Suc (random_calls st2)\<rparr>
                 else st2);
          (is_success, w1, t1) =
            (if replace_before_delete \<noteq> ''none''
             then modify_channel_message_by_message_id ds (channel_id msg) (message_id msg)
                    (replace_to st3) w
             else (Inr True, w, []))
      in case is_success of
           Inl e \<Rightarrow> (Inl e, w1, t1)
         | Inr True \<Rightarrow>
             (case delete_channel_message_by_message_id ds (channel_id msg) (message_id msg) w1 of
                (Inl e, w2, t2) \<Rightarrow> (Inl e, w2, t1 @ t2)
              | (Inr deleted, w2, t2) \<Rightarrow>
                  (Inr (if \<not> deleted then st3\<lparr>failed_count := failed_count st3 + 1\<rparr> else st3),
                   w2, t1 @ t2))
         | Inr False \<Rightarrow> (Inr (st3\<lparr>failed_count := failed_count st3 + 1\<rparr>), w1, t1))"

text \<open>The loop \<open>for message in messages\<close> over one batch; an exception ends it.\<close>

fun process_messages ::
  "rat \<Rightarrow> string \<Rightarrow> (nat \<Rightarrow> string) \<Rightarrow> run \<Rightarrow> message list \<Rightarrow> world
     \<Rightarrow> (error + run) \<times> world \<times> trace" where
  "process_messages ds replace_before_delete generate_random st [] w = (Inr st, w, [])"
| "process_messages ds replace_before_delete generate_random st (msg # msgs) w =
     (case process_message ds replace_before_delete generate_random st msg w of
        (Inl e, w', t) \<Rightarrow> (Inl e, w', t)
      | (Inr st', w', t) \<Rightarrow>
          (case process_messages ds replace_before_delete generate_random st' msgs w' of
             (r, w'', t') \<Rightarrow> (r, w'', t @ t')))"

lemma modify_length:
  "modify_channel_message_by_message_id ds channel message txt w = (r, w', t)
     \<Longrightarrow> length w' \<le> length w"
  unfolding modify_channel_message_by_message_id_def
  by (auto split: prod.splits sum.splits error.splits dest: request_length)

lemma delete_length:
  "delete_channel_message_by_message_id ds channel message w = (r, w', t)
     \<Longrightarrow> length w' \<le> length w"
  unfolding delete_channel_message_by_message_id_def
  by (auto split: prod.splits sum.splits error.splits dest: request_length)

lemma process_message_length:
  "process_message ds replace_before_delete generate_random st msg w = (r, w', t)
     \<Longrightarrow> length w' \<le> length w"
  unfolding process_message_def Let_def
  by (auto split: prod.splits sum.splits bool.splits if_splits;
      (drule modify_length)?; (drule delete_length)?; simp)

lemma process_messages_length:
  "process_messages ds replace_before_delete generate_random st msgs w = (r, w', t)
     \<Longrightarrow> length w' \<le> length w"
proof (induction msgs arbitrary: st w r w' t)
  case Nil
  then show ?case by simp
next
  case (Cons msg msgs)
  then show ?case
    by (fastforce split: prod.splits sum.splits dest: process_message_length)
qed

text \<open>
  The loop \<open>for total_results_size, messages in generator\<close> of \<open>main\<close>: each pass resumes the
  generator, which makes its HTTP calls, and then processes the batch, which makes the replace
  and delete calls. The pair is \<open>main\<close>'s local \<open>total_results_size\<close> and its other locals.
\<close>

function main_loop ::
  "rat \<Rightarrow> string \<Rightarrow> int \<Rightarrow> int \<Rightarrow> int \<Rightarrow> string \<Rightarrow> (nat \<Rightarrow> string) \<Rightarrow> cursor \<Rightarrow> int \<times> run \<Rightarrow> world
     \<Rightarrow> (error + int \<times> run) \<times> world \<times> trace" where
  "main_loop ds room_type room_id author_id oldest_message_id replace_before_delete
       generate_random cur (tot, st) w =
     (case search_loop ds room_type room_id author_id oldest_message_id cur w of
        (Raise e, w', t) \<Rightarrow> (Inl e, w', t)
      | (StopIteration, w', t) \<Rightarrow> (Inr (tot, st), w', t)
      | (Yield (tot', messages) cur', w', t) \<Rightarrow>
          (case process_messages ds replace_before_delete generate_random st messages w' of
             (Inl e, w'', t') \<Rightarrow> (Inl e, w'', t @ t')
           | (Inr st', w'', t') \<Rightarrow>
               (case main_loop ds room_type room_id author_id oldest_message_id
                       replace_before_delete generate_random cur' (tot', st') w'' of
                  (r, w''', t'') \<Rightarrow> (r, w''', t @ t' @ t''))))"
  by pat_completeness auto
termination
proof (relation "measure (\<lambda>(ds, room_type, room_id, author_id, oldest, mode, gen, cur, st, w).
                            length w)")
  show "wf (measure (\<lambda>(ds, room_type, room_id, author_id, oldest, mode, gen, cur, st, w).
                       length (w :: world)))"
    by simp
qed (auto dest!: search_loop_Yield_shrinks [OF sym] process_messages_length [OF sym])

declare main_loop.simps [simp del]

text \<open>
  \<open>main\<close>, with the parameters that reach the modelled code (the token only sets a header).
  The first component of the result is the exception re-raised by the handler, or the values
  of \<open>total_results_size\<close> and of the other locals when the function returns.
\<close>

definition main ::
  "int \<Rightarrow> string \<Rightarrow> int \<Rightarrow> int \<Rightarrow> int \<Rightarrow> string \<Rightarrow> string \<Rightarrow> rat \<Rightarrow> (nat \<Rightarrow> string) \<Rightarrow> world
     \<Rightarrow> (error + int \<times> run) \<times> world \<times> trace" where
  "main room_id room_type author_id newest_id oldest_message_id replace_before_delete
       replace_to_arg default_sleep generate_random w =
     (let started = [Log INFO ''Started!''];
          aborted = [Log INFO '''', Log WARNING ''Aborted!''];
          st0 = \<lparr>first_message_id = 0, newest_message_datetime = None, failed_count = 0,
                 replace_to = replace_to_arg, last_message = None, random_calls = 0\<rparr>
      in case room_segment room_type of
           Inl e \<Rightarrow> (Inl e, w, started @ aborted)
         | Inr room_type' \<Rightarrow>
             (case main_loop default_sleep room_type' room_id author_id oldest_message_id
                     replace_before_delete generate_random
                     \<lparr>offset = 0, total_results_size = 0, newest_message_id = newest_id\<rparr>
                     (0, st0) w of
                (Inl e, w', t) \<Rightarrow> (Inl e, w', started @ t @ aborted)
              | (Inr (tot, st), w', t) \<Rightarrow>
                  if tot = 0 then
                    (Inr (tot, st), w',
                     started @ t
                       @ [Log INFO '''', Log INFO ''There are no messages to bulky delete...''])
                  else
                    (case (last_message st, newest_message_datetime st) of
                       (Some message, Some newest_datetime) \<Rightarrow>
                         (Inr (tot, st), w',
                          started @ t
                            @ [Log INFO '''',
                               Log INFO (''Done to bulky delete ''
                                         @ str_int (tot - failed_count st) @ '' messages!''),
                               Log INFO (''Failed to modify or to delete ''
                                         @ str_int (failed_count st) @ '' messages.''),
                               Log INFO (''Message IDs: from '' @ str_int (message_id message)
                                         @ '' to '' @ str_int (first_message_id st)),
                               Log INFO (''Message Timestamps: from '' @ timestamp message
                                         @ '' to '' @ newest_datetime)])
                     | _ \<Rightarrow> (Inl UnboundLocalError, w', started @ t @ aborted))))"

section \<open>Observations on traces\<close>

text \<open>The HTTP calls of a trace and the durations of its sleeps, in order.\<close>

fun http_calls :: "trace \<Rightarrow> http_call list" where
  "http_calls [] = []"
| "http_calls (Http c # t) = c # http_calls t"
| "http_calls (e # t) = http_calls t"

fun sleeps :: "trace \<Rightarrow> rat list" where
  "sleeps [] = []"
| "sleeps (Sleep d # t) = d # sleeps t"
| "sleeps (e # t) = sleeps t"

text \<open>
  The reading of the specification under which every HTTP attempt of a trace has a sleep of
  \<open>default_sleep\<close> as the last effect before it, log records aside. \<open>prev\<close> is the last
  effect seen that is not a log record.
\<close>

fun sleep_before_each_attempt :: "rat \<Rightarrow> event option \<Rightarrow> trace \<Rightarrow> bool" where
  "sleep_before_each_attempt d prev [] = True"
| "sleep_before_each_attempt d prev (Http c # t) =
     (prev = Some (Sleep d) \<and> sleep_before_each_attempt d (Some (Http c)) t)"
| "sleep_before_each_attempt d prev (Log l s # t) = sleep_before_each_attempt d prev t"
| "sleep_before_each_attempt d prev (Sleep x # t) = sleep_before_each_attempt d (Some (Sleep x)) t"

text \<open>
  The responses after which the loop of \<open>_request\<close> backs off and goes on: status 429 with a
  non-negative \<open>retry_after\<close>; and the seconds it sleeps then.
\<close>

definition backs_off :: "response \<Rightarrow> bool" where
  "backs_off res =
     (status_code res = 429 \<and> (case json res of RateLimited ms \<Rightarrow> 0 \<le> ms | _ \<Rightarrow> False))"

definition backoff :: "response \<Rightarrow> rat" where
  "backoff res = (case json res of RateLimited ms \<Rightarrow> of_int ms / 1000 | _ \<Rightarrow> 0)"

text \<open>The effects of a trace other than its log records.\<close>

fun io_events :: "trace \<Rightarrow> trace" where
  "io_events [] = []"
| "io_events (Log l s # t) = io_events t"
| "io_events (e # t) = e # io_events t"

text \<open>
  What one pass of the loop of \<open>_request\<close> does on a response it backs off from: the HTTP
  call, the warning and the sleep of \<open>retry_after / 1000\<close> seconds.
\<close>

definition rate_limited_events :: "http_call \<Rightarrow> response \<Rightarrow> trace" where
  "rate_limited_events c p =
     (case json p of
        RateLimited ms \<Rightarrow>
          [Http c,
           Log WARNING (''Rate limited. We will sleep '' @ str_int ms @ '' ms, and retry it.''),
           Sleep (of_int ms / 1000)]
      | _ \<Rightarrow> [])"

text \<open>
  The HTTP call and the sleep, if any, of the pass of the loop that receives a response: the
  back-off when the loop backs off from it, no sleep otherwise.
\<close>

definition attempt_events :: "http_call \<Rightarrow> response \<Rightarrow> trace" where
  "attempt_events c res = Http c # (if backs_off res then [Sleep (backoff res)] else [])"

text \<open>Whether a string occurs inside another.\<close>

fun contains :: "string \<Rightarrow> string \<Rightarrow> bool" where
  "contains [] b = (b = [])"
| "contains (x # xs) b = (take (length b) (x # xs) = b \<or> contains xs b)"

section \<open>Properties of the transport client\<close>

lemma str_int_200: "str_int 200 = ''200''"
  by code_simp

lemma str_int_5: "str_int 5 = ''5''"
  by code_simp

lemma not_listed_429: "map_of HTTP_CODE_MESSAGES (IntKey 429) = None"
  by (simp add: HTTP_CODE_MESSAGES_def)

lemma not_listed_200: "map_of HTTP_CODE_MESSAGES (IntKey 200) = None"
  by (simp add: HTTP_CODE_MESSAGES_def)

lemma listed_iff:
  "map_of HTTP_CODE_MESSAGES (IntKey n) \<noteq> None \<longleftrightarrow> n \<in> {400, 401, 403, 404, 405, 502}"
  by (simp add: HTTP_CODE_MESSAGES_def)

lemma not_listed_iff:
  "map_of HTTP_CODE_MESSAGES (IntKey n) = None \<longleftrightarrow> n \<notin> {400, 401, 403, 404, 405, 502}"
  using listed_iff [of n] by blast

lemma code_message_5xx:
  "code_message (StrKey ''5xx'') = ''The server had an error processing your request.''"
  by (simp add: code_message_def HTTP_CODE_MESSAGES_def)

text \<open>
  C7. When the first attempt is answered 429 with \<open>retry_after = 200\<close> and the second is
  answered 200, the request makes exactly two HTTP attempts, sleeps 200/1000 = 1/5 of a second
  between them, consumes exactly those two responses and returns the second one.
\<close>

theorem request_retries_once_after_429:
  assumes "status_code r1 = 429" and "json r1 = RateLimited 200" and "status_code r2 = 200"
  shows "request ds meth path ps dat (r1 # r2 # w) =
           (Inr (Some r2), w,
            [Sleep ds,
             Http \<lparr>http_method = meth, url = API_URL @ path, params = ps, data = dat\<rparr>,
             Log WARNING ''Rate limited. We will sleep 200 ms, and retry it.'',
             Sleep (1 / 5),
             Http \<lparr>http_method = meth, url = API_URL @ path, params = ps, data = dat\<rparr>])
         \<and> length (http_calls (snd (snd (request ds meth path ps dat (r1 # r2 # w))))) = 2"
  using assms
  by (simp add: request_def RATE_LIMITED_RETRY_def eval_nat_numeral
                not_listed_429 not_listed_200 str_int_200)

theorem request_retries_once_after_429_witness:
  "request 0 ''delete'' ''/channels/7/messages/9'' [] None
     [\<lparr>status_code = 429, res_text = '''', json = RateLimited 200\<rparr>,
      \<lparr>status_code = 200, res_text = ''ok'', json = OtherBody\<rparr>] =
     (Inr (Some \<lparr>status_code = 200, res_text = ''ok'', json = OtherBody\<rparr>), [],
      [Sleep 0,
       Http \<lparr>http_method = ''delete'', url = API_URL @ ''/channels/7/messages/9'', params = [],
             data = None\<rparr>,
       Log WARNING ''Rate limited. We will sleep 200 ms, and retry it.'',
       Sleep (1 / 5),
       Http \<lparr>http_method = ''delete'', url = API_URL @ ''/channels/7/messages/9'', params = [],
             data = None\<rparr>])"
  using request_retries_once_after_429
    [of "\<lparr>status_code = 429, res_text = '''', json = RateLimited 200\<rparr>"
        "\<lparr>status_code = 200, res_text = ''ok'', json = OtherBody\<rparr>"
        0 "''delete''" "''/channels/7/messages/9''" "[]" None "[]"]
  by simp

text \<open>
  C8, as the specification states it, fails: for a status in [500, 600) other than 502 the
  error raised carries the HTTP code and the generic explanation, but not the response body.
  Here the body \<open>boom\<close> of a 500 response does not occur in the error's message.
\<close>

theorem server_error_body_counterexample:
  "fst (request 0 ''get'' ''/x'' [] None
          [\<lparr>status_code = 500, res_text = ''boom'', json = OtherBody\<rparr>])
     = Inl (DiscordApiError ''[HTTP code: 500] The server had an error processing your request.'')
   \<and> \<not> contains ''[HTTP code: 500] The server had an error processing your request.'' ''boom''"
proof -
  have "str_int 500 = ''500''"
    by code_simp
  then show ?thesis
    by (simp add: request_def RATE_LIMITED_RETRY_def eval_nat_numeral not_listed_iff
                  DiscordApiError_init_def code_message_5xx)
qed

lemma attempts_backoffs:
  assumes "\<forall>p \<in> set pre. backs_off p" and "length pre \<le> n"
  shows "attempts n c (pre @ w) =
           (case attempts (n - length pre) c w of
              (r, w', t) \<Rightarrow> (r, w', concat (map (rate_limited_events c) pre) @ t))"
  using assms
proof (induction pre arbitrary: n)
  case Nil
  then show ?case
    by (simp split: prod.splits)
next
  case (Cons p pre)
  obtain m where n: "n = Suc m" and m: "length pre \<le> m"
    using Cons.prems(2) by (cases n) auto
  obtain ms where p: "status_code p = 429" "json p = RateLimited ms" "0 \<le> ms"
    using Cons.prems(1) by (auto simp: backs_off_def split: body.splits)
  have ih: "attempts m c (pre @ w) =
              (case attempts (m - length pre) c w of
                 (r, w', t) \<Rightarrow> (r, w', concat (map (rate_limited_events c) pre) @ t))"
    using Cons.IH [of m] Cons.prems(1) m by simp
  have ev: "rate_limited_events c p =
              [Http c,
               Log WARNING (''Rate limited. We will sleep '' @ str_int ms @ '' ms, and retry it.''),
               Sleep (of_int ms / 1000)]"
    using p by (simp add: rate_limited_events_def)
  show ?case
    using p n ih
    by (simp add: not_listed_429 ev Let_def split: prod.splits)
qed

text \<open>
  C8, amended. On whichever attempt of a call it is received (the first, or a later one after
  back-offs from 429 responses), a response whose status is one of 400, 401, 403, 404, 405,
  502 makes the request fail on that attempt, with no further attempt, raising an error whose
  message is the HTTP code, the explanation listed for the code, a newline and the raw
  response body. A response with any other status in [500, 600) makes it fail in the same
  way, with an error whose message is the HTTP code and the generic server-error explanation,
  without the response body.
\<close>

theorem request_terminal_status:
  assumes "\<forall>p \<in> set pre. backs_off p" and "length pre < RATE_LIMITED_RETRY"
  shows
  "(status_code res \<in> {400, 401, 403, 404, 405, 502} \<longrightarrow>
      request ds meth path ps dat (pre @ res # w) =
        (Inl (DiscordApiError
               (''[HTTP code: '' @ str_int (status_code res) @ ''] ''
                @ code_message (IntKey (status_code res)) @ [CHR 0x0A] @ res_text res)),
         w,
         Sleep ds
         # concat (map (rate_limited_events
                          \<lparr>http_method = meth, url = API_URL @ path, params = ps, data = dat\<rparr>)
                     pre)
         @ [Http \<lparr>http_method = meth, url = API_URL @ path, params = ps, data = dat\<rparr>]))
   \<and> (500 \<le> status_code res \<and> status_code res < 600 \<and> status_code res \<noteq> 502 \<longrightarrow>
      request ds meth path ps dat (pre @ res # w) =
        (Inl (DiscordApiError
               (''[HTTP code: '' @ str_int (status_code res)
                @ ''] The server had an error processing your request.'')),
         w,
         Sleep ds
         # concat (map (rate_limited_events
                          \<lparr>http_method = meth, url = API_URL @ path, params = ps, data = dat\<rparr>)
                     pre)
         @ [Http \<lparr>http_method = meth, url = API_URL @ path, params = ps, data = dat\<rparr>]))"
proof -
  let ?c = "\<lparr>http_method = meth, url = API_URL @ path, params = ps, data = dat\<rparr>"
  obtain k where k: "RATE_LIMITED_RETRY - length pre = Suc k"
    using assms(2) by (cases "RATE_LIMITED_RETRY - length pre") auto
  have split: "attempts RATE_LIMITED_RETRY ?c (pre @ res # w) =
                 (case attempts (Suc k) ?c (res # w) of
                    (r, w', t) \<Rightarrow> (r, w', concat (map (rate_limited_events ?c) pre) @ t))"
    using attempts_backoffs [of pre RATE_LIMITED_RETRY ?c "res # w"] assms k by simp
  show ?thesis
  proof (intro conjI impI)
    assume a: "status_code res \<in> {400, 401, 403, 404, 405, 502}"
    then have l: "map_of HTTP_CODE_MESSAGES (IntKey (status_code res)) \<noteq> None"
      by (simp only: listed_iff)
    have pos: "0 < status_code res"
      using a by auto
    have "attempts (Suc k) ?c (res # w) =
            (Inl (DiscordApiError
                   (''[HTTP code: '' @ str_int (status_code res) @ ''] ''
                    @ code_message (IntKey (status_code res)) @ [CHR 0x0A] @ res_text res)),
             w, [Http ?c])"
      using l pos by (simp add: DiscordApiError_init_def)
    then show "request ds meth path ps dat (pre @ res # w) =
        (Inl (DiscordApiError
               (''[HTTP code: '' @ str_int (status_code res) @ ''] ''
                @ code_message (IntKey (status_code res)) @ [CHR 0x0A] @ res_text res)),
         w, Sleep ds # concat (map (rate_limited_events ?c) pre) @ [Http ?c])"
      by (simp add: request_def split)
  next
    assume a: "500 \<le> status_code res \<and> status_code res < 600 \<and> status_code res \<noteq> 502"
    then have l: "map_of HTTP_CODE_MESSAGES (IntKey (status_code res)) = None"
      using listed_iff [of "status_code res"] by auto
    have "attempts (Suc k) ?c (res # w) =
            (Inl (DiscordApiError
                   (''[HTTP code: '' @ str_int (status_code res)
                    @ ''] The server had an error processing your request.'')),
             w, [Http ?c])"
      using l a by (simp add: DiscordApiError_init_def code_message_5xx)
    then show "request ds meth path ps dat (pre @ res # w) =
        (Inl (DiscordApiError
               (''[HTTP code: '' @ str_int (status_code res)
                @ ''] The server had an error processing your request.'')),
         w, Sleep ds # concat (map (rate_limited_events ?c) pre) @ [Http ?c])"
      by (simp add: request_def split)
  qed
qed

theorem request_terminal_status_witness:
  "request 0 ''get'' ''/x'' [] None
     [\<lparr>status_code = 429, res_text = '''', json = RateLimited 200\<rparr>,
      \<lparr>status_code = 404, res_text = ''gone'', json = OtherBody\<rparr>] =
     (Inl (DiscordApiError
            (''[HTTP code: 404] The resource at the location specified doesn't exist.''
             @ [CHR 0x0A] @ ''gone'')),
      [],
      [Sleep 0,
       Http \<lparr>http_method = ''get'', url = API_URL @ ''/x'', params = [], data = None\<rparr>,
       Log WARNING ''Rate limited. We will sleep 200 ms, and retry it.'',
       Sleep (1 / 5),
       Http \<lparr>http_method = ''get'', url = API_URL @ ''/x'', params = [], data = None\<rparr>])
   \<and> request 0 ''get'' ''/x'' [] None
     [\<lparr>status_code = 503, res_text = ''gone'', json = OtherBody\<rparr>] =
     (Inl (DiscordApiError ''[HTTP code: 503] The server had an error processing your request.''),
      [],
      [Sleep 0, Http \<lparr>http_method = ''get'', url = API_URL @ ''/x'', params = [], data = None\<rparr>])"
proof -
  have s: "str_int 404 = ''404''" "str_int 503 = ''503''"
    by code_simp+
  have m: "code_message (IntKey 404) = ''The resource at the location specified doesn't exist.''"
    by (simp add: code_message_def HTTP_CODE_MESSAGES_def)
  have h1: "\<forall>p \<in> set [\<lparr>status_code = 429, res_text = '''', json = RateLimited 200\<rparr>].
              backs_off p"
    by (simp add: backs_off_def)
  have h2: "length [\<lparr>status_code = 429, res_text = '''', json = RateLimited 200\<rparr>]
              < RATE_LIMITED_RETRY"
    by (simp add: RATE_LIMITED_RETRY_def)
  have h3: "\<forall>p \<in> set ([] :: response list). backs_off p"
    by simp
  have h4: "length ([] :: response list) < RATE_LIMITED_RETRY"
    by (simp add: RATE_LIMITED_RETRY_def)
  show ?thesis
    using request_terminal_status
            [OF h1 h2, of "\<lparr>status_code = 404, res_text = ''gone'', json = OtherBody\<rparr>"
                0 "''get''" "''/x''" "[]" None "[]"]
          request_terminal_status
            [OF h3 h4, of "\<lparr>status_code = 503, res_text = ''gone'', json = OtherBody\<rparr>"
                0 "''get''" "''/x''" "[]" None "[]"]
    by (simp add: s m rate_limited_events_def str_int_200)
qed

text \<open>
  C3, as the specification states it, fails: \<open>default_sleep\<close> is slept once, before the loop.
  With \<open>default_sleep = 1\<close>, a 429 with \<open>retry_after = 200\<close> and then a 200, the second attempt
  follows a sleep of 1/5 s, not a sleep of 1 s.
\<close>

theorem default_sleep_before_retry_counterexample:
  "\<not> sleep_before_each_attempt 1 None
       (snd (snd (request 1 ''get'' ''/x'' [] None
                    [\<lparr>status_code = 429, res_text = '''', json = RateLimited 200\<rparr>,
                     \<lparr>status_code = 200, res_text = '''', json = OtherBody\<rparr>])))"
  by (simp add: request_def RATE_LIMITED_RETRY_def eval_nat_numeral not_listed_iff)

lemma attempts_sleeps:
  "attempts n c w = (r, w', t)
     \<Longrightarrow> sleeps t = map backoff (filter backs_off (take (length w - length w') w))"
proof (induction n c w arbitrary: r w' t rule: attempts.induct)
  case (1 c w)
  then show ?case by simp
next
  case (2 n c)
  then show ?case by auto
next
  case (3 n c res w)
  show ?case
  proof (cases "backs_off res
                  \<and> map_of HTTP_CODE_MESSAGES (IntKey (status_code res)) = None")
    case True
    then obtain ms where ms: "json res = RateLimited ms" "0 \<le> ms" "status_code res = 429"
      by (auto simp: backs_off_def split: body.splits)
    obtain r0 w0 t0 where rec: "attempts n c w = (r0, w0, t0)"
      by (metis prod_cases3)
    have le: "length w0 \<le> length w"
      using rec by (rule attempts_length)
    have ih: "sleeps t0 = map backoff (filter backs_off (take (length w - length w0) w))"
      using "3.IH" [OF _ _ _ ms(1) refl _ rec] True ms by simp
    have res: "r = r0" "w' = w0"
      "t = [Http c,
            Log WARNING (''Rate limited. We will sleep '' @ str_int ms @ '' ms, and retry it.''),
            Sleep (of_int ms / 1000)] @ t0"
      using "3.prems" True ms rec by (simp_all add: Let_def)
    have "take (length (res # w) - length w0) (res # w) = res # take (length w - length w0) w"
      using le by (simp add: Suc_diff_le)
    then show ?thesis
      using ih res True ms by (simp add: backoff_def)
  next
    case False
    then have "w' = w \<and> sleeps t = []"
      using "3.prems"
      by (auto simp: backs_off_def Let_def split: if_splits body.splits)
    moreover have "\<not> backs_off res"
      using False not_listed_429 by (auto simp: backs_off_def)
    ultimately show ?thesis
      by simp
  qed
qed

lemma attempts_io_events:
  "attempts n c w = (r, w', t)
     \<Longrightarrow> io_events t =
           concat (map (attempt_events c) (take (length w - length w') w))
           @ (if r = Inl ConnectionError then [Http c] else [])
         \<and> (\<forall>p \<in> set (if r = Inl ConnectionError then take (length w - length w') w
                         else butlast (take (length w - length w') w)). backs_off p)"
proof (induction n c w arbitrary: r w' t rule: attempts.induct)
  case (1 c w)
  then show ?case by auto
next
  case (2 n c)
  then show ?case by auto
next
  case (3 n c res w)
  show ?case
  proof (cases "backs_off res
                  \<and> map_of HTTP_CODE_MESSAGES (IntKey (status_code res)) = None")
    case True
    then obtain ms where ms: "json res = RateLimited ms" "0 \<le> ms" "status_code res = 429"
      by (auto simp: backs_off_def split: body.splits)
    obtain r0 w0 t0 where rec: "attempts n c w = (r0, w0, t0)"
      by (metis prod_cases3)
    have le: "length w0 \<le> length w"
      using rec by (rule attempts_length)
    note ih = "3.IH" [OF _ _ _ ms(1) refl _ rec]
    have ih1: "io_events t0 =
                 concat (map (attempt_events c) (take (length w - length w0) w))
                 @ (if r0 = Inl ConnectionError then [Http c] else [])"
      and ih2: "\<forall>p \<in> set (if r0 = Inl ConnectionError then take (length w - length w0) w
                              else butlast (take (length w - length w0) w)). backs_off p"
      using ih True ms by simp_all
    have res: "r = r0" "w' = w0"
      "t = [Http c,
            Log WARNING (''Rate limited. We will sleep '' @ str_int ms @ '' ms, and retry it.''),
            Sleep (of_int ms / 1000)] @ t0"
      using "3.prems" True ms rec by (simp_all add: Let_def)
    have tk: "take (length (res # w) - length w0) (res # w)
                = res # take (length w - length w0) w"
      using le by (simp add: Suc_diff_le)
    have ev: "attempt_events c res = [Http c, Sleep (of_int ms / 1000)]"
      using True ms by (simp add: attempt_events_def backoff_def)
    have "io_events t =
            concat (map (attempt_events c) (take (length (res # w) - length w') (res # w)))
            @ (if r = Inl ConnectionError then [Http c] else [])"
      using ih1 res tk ev by simp
    moreover have "\<forall>p \<in> set (if r = Inl ConnectionError
                                then take (length (res # w) - length w') (res # w)
                                else butlast (take (length (res # w) - length w') (res # w))).
                     backs_off p"
      using ih2 res tk True by (auto split: if_splits)
    ultimately show ?thesis
      by blast
  next
    case False
    then have "w' = w \<and> io_events t = [Http c] \<and> r \<noteq> Inl ConnectionError"
      using "3.prems"
      by (auto simp: backs_off_def Let_def DiscordApiError_init_def
               split: if_splits body.splits)
    moreover have "\<not> backs_off res"
      using False not_listed_429 by (auto simp: backs_off_def)
    ultimately show ?thesis
      by (simp add: attempt_events_def)
  qed
qed

lemma io_events_append_Log: "io_events (t @ [Log l s]) = io_events t"
  by (induction t rule: io_events.induct) simp_all

text \<open>
  C3, amended. Every call of the request operation sleeps \<open>default_sleep\<close> exactly once, as
  its first effect, before the first HTTP attempt. Log records aside, what follows is, for
  each response received in turn, the HTTP attempt that received it and then, when the
  response is a 429 the loop backs off from, one sleep of \<open>retry_after / 1000\<close> seconds; every
  response but the last one received is such a 429. So each retry attempt has the back-off
  of the preceding 429 as the effect just before it, not a sleep of \<open>default_sleep\<close>, and the
  sleeps of a call are \<open>default_sleep\<close> followed by one back-off per 429 response backed off
  from. (An attempt made when no response is left raises; it is the last effect.)
\<close>

theorem default_sleep_once_then_backoffs:
  assumes "request ds meth path ps dat w = (r, w', t)"
  shows "hd t = Sleep ds
         \<and> sleeps t = ds # map backoff (filter backs_off (take (length w - length w') w))
         \<and> io_events t =
             Sleep ds
             # concat (map (attempt_events
                              \<lparr>http_method = meth, url = API_URL @ path, params = ps,
                                data = dat\<rparr>)
                         (take (length w - length w') w))
             @ (if r = Inl ConnectionError
                then [Http \<lparr>http_method = meth, url = API_URL @ path, params = ps, data = dat\<rparr>]
                else [])
         \<and> (\<forall>p \<in> set (if r = Inl ConnectionError then take (length w - length w') w
                         else butlast (take (length w - length w') w)). backs_off p)"
proof -
  let ?c = "\<lparr>http_method = meth, url = API_URL @ path, params = ps, data = dat\<rparr>"
  obtain t0 where a: "attempts RATE_LIMITED_RETRY ?c w = (r, w', t0)"
    and t: "t = Sleep ds # t0 \<or> (\<exists>l s. t = Sleep ds # t0 @ [Log l s])"
    using assms unfolding request_def
    by (auto split: prod.splits sum.splits option.splits)
  have log: "sleeps (t0 @ [Log l s]) = sleeps t0" for l s
    by (induction t0 rule: sleeps.induct) simp_all
  have "sleeps t = ds # sleeps t0"
    using t log by auto
  then have s: "sleeps t = ds # map backoff (filter backs_off (take (length w - length w') w))"
    using attempts_sleeps [OF a] by simp
  have h: "hd t = Sleep ds"
    using t by auto
  have "io_events t = Sleep ds # io_events t0"
    using t io_events_append_Log by auto
  then have io: "io_events t =
             Sleep ds # concat (map (attempt_events ?c) (take (length w - length w') w))
             @ (if r = Inl ConnectionError then [Http ?c] else [])"
    using attempts_io_events [OF a] by simp
  have "\<forall>p \<in> set (if r = Inl ConnectionError then take (length w - length w') w
                     else butlast (take (length w - length w') w)). backs_off p"
    using attempts_io_events [OF a] by blast
  with h s io show ?thesis
    by blast
qed

theorem default_sleep_once_then_backoffs_witness:
  "hd (snd (snd (request 1 ''get'' ''/x'' [] None
                   [\<lparr>status_code = 429, res_text = '''', json = RateLimited 200\<rparr>,
                    \<lparr>status_code = 200, res_text = '''', json = OtherBody\<rparr>]))) = Sleep 1
   \<and> sleeps (snd (snd (request 1 ''get'' ''/x'' [] None
                   [\<lparr>status_code = 429, res_text = '''', json = RateLimited 200\<rparr>,
                    \<lparr>status_code = 200, res_text = '''', json = OtherBody\<rparr>]))) = [1, 1 / 5]
   \<and> io_events (snd (snd (request 1 ''get'' ''/x'' [] None
                   [\<lparr>status_code = 429, res_text = '''', json = RateLimited 200\<rparr>,
                    \<lparr>status_code = 200, res_text = '''', json = OtherBody\<rparr>])))
     = [Sleep 1,
        Http \<lparr>http_method = ''get'', url = API_URL @ ''/x'', params = [], data = None\<rparr>,
        Sleep (1 / 5),
        Http \<lparr>http_method = ''get'', url = API_URL @ ''/x'', params = [], data = None\<rparr>]
   \<and> backs_off \<lparr>status_code = 429, res_text = '''', json = RateLimited 200\<rparr>"
proof -
  have e: "request 1 ''get'' ''/x'' [] None
             [\<lparr>status_code = 429, res_text = '''', json = RateLimited 200\<rparr>,
              \<lparr>status_code = 200, res_text = '''', json = OtherBody\<rparr>]
           = (Inr (Some \<lparr>status_code = 200, res_text = '''', json = OtherBody\<rparr>), [],
              [Sleep 1,
               Http \<lparr>http_method = ''get'', url = API_URL @ ''/x'', params = [], data = None\<rparr>,
               Log WARNING ''Rate limited. We will sleep 200 ms, and retry it.'',
               Sleep (1 / 5),
               Http \<lparr>http_method = ''get'', url = API_URL @ ''/x'', params = [], data = None\<rparr>])"
    by (simp add: request_def RATE_LIMITED_RETRY_def eval_nat_numeral not_listed_iff str_int_200)
  show ?thesis
    using default_sleep_once_then_backoffs [OF e]
    by (simp add: e backs_off_def backoff_def attempt_events_def)
qed

text \<open>
  C2. The code does not do what the claim says: when all five attempts of a delete are
  answered 429, \<open>_request\<close> logs the critical record and returns \<open>None\<close> without raising, and
  \<open>delete_channel_message_by_message_id\<close> returns \<open>True\<close>.
\<close>

theorem delete_after_retry_ceiling_reports_success:
  "delete_channel_message_by_message_id 0 7 9
     (replicate 5 \<lparr>status_code = 429, res_text = '''', json = RateLimited 200\<rparr>)
   = (Inr True, [],
      Sleep 0
      # concat (replicate 5
          [Http \<lparr>http_method = ''delete'', url = API_URL @ message_path 7 9, params = [],
                  data = None\<rparr>,
           Log WARNING ''Rate limited. We will sleep 200 ms, and retry it.'',
           Sleep (1 / 5)])
      @ [Log CRITICAL ''Failed to request it, although we tried at 5 times.''])"
  by (simp add: delete_channel_message_by_message_id_def request_def RATE_LIMITED_RETRY_def
                eval_nat_numeral not_listed_iff str_int_200 str_int_5)

section \<open>Properties of the search paginator\<close>

lemma handle_page_Inr:
  assumes "handle_page oldest_message_id cur ro = Inr cur'"
  shows "newest_message_id cur' = newest_message_id cur"
    and "total_results_size cur' = total_results_size cur"
  using assms
  by (auto simp: handle_page_def Let_def
           split: option.splits body.splits sum.splits if_splits)

lemma handle_page_Yield:
  assumes "handle_page oldest_message_id cur ro = Inl (Yield (n, batch) cur')"
  shows "batch \<noteq> []"
    and "\<forall>m \<in> set batch. oldest_message_id \<le> message_id m
                            \<and> message_id m \<le> newest_message_id cur"
    and "n = total_results_size cur + int (length batch)"
    and "total_results_size cur' = n"
    and "newest_message_id cur' < newest_message_id cur"
proof -
  obtain messages where
    b: "batch = filter (\<lambda>m. oldest_message_id \<le> message_id m
                               \<and> message_id m \<le> newest_message_id cur) messages"
    and ne: "batch \<noteq> []"
    and n: "n = total_results_size cur + int (length batch)"
    and c: "cur' = cur\<lparr>total_results_size := n, newest_message_id := message_id (last batch) - 1\<rparr>"
    using assms
    by (auto simp: handle_page_def Let_def
             split: option.splits body.splits sum.splits if_splits)
  show "batch \<noteq> []"
    by (rule ne)
  show bounds: "\<forall>m \<in> set batch. oldest_message_id \<le> message_id m
                            \<and> message_id m \<le> newest_message_id cur"
    using b by auto
  show "n = total_results_size cur + int (length batch)"
    by (rule n)
  show "total_results_size cur' = n"
    using c by simp
  have "last batch \<in> set batch"
    using ne by simp
  then have "message_id (last batch) \<le> newest_message_id cur"
    using bounds by blast
  then show "newest_message_id cur' < newest_message_id cur"
    using c by simp
qed

lemma search_loop_Yield:
  "search_loop ds room_type room_id author_id oldest_message_id cur w
     = (Yield (n, batch) cur', w', t)
   \<Longrightarrow> batch \<noteq> []
       \<and> (\<forall>m \<in> set batch. oldest_message_id \<le> message_id m
                             \<and> message_id m \<le> newest_message_id cur)
       \<and> n = total_results_size cur + int (length batch)
       \<and> total_results_size cur' = n
       \<and> newest_message_id cur' < newest_message_id cur"
proof (induction ds room_type room_id author_id oldest_message_id cur w arbitrary: w' t
       rule: search_loop.induct)
  case (1 ds room_type room_id author_id oldest_message_id cur w)
  obtain r w1 t1 where req:
    "request ds ''get'' (search_path room_type room_id)
       (search_params author_id (offset cur)) None w = (r, w1, t1)"
    by (metis prod_cases3)
  show ?case
  proof (cases r)
    case (Inl e)
    with "1.prems" req show ?thesis
      by (simp add: search_loop_raise)
  next
    case (Inr ro)
    show ?thesis
    proof (cases "handle_page oldest_message_id cur ro")
      case (Inl step)
      then have "step = Yield (n, batch) cur'"
        using "1.prems" search_loop_leave [OF req [unfolded Inr] Inl] by simp
      with Inl show ?thesis
        using handle_page_Yield [of oldest_message_id cur ro n batch cur'] by simp
    next
      case hp: (Inr cur2)
      obtain s2 w2 t2 where rec:
        "search_loop ds room_type room_id author_id oldest_message_id cur2 w1 = (s2, w2, t2)"
        by (metis prod_cases3)
      have "s2 = Yield (n, batch) cur'"
        using "1.prems" search_loop_continue [OF req [unfolded Inr] hp rec] by simp
      then show ?thesis
        using "1.IH" [OF req [symmetric] Inr refl hp] rec handle_page_Inr [OF hp] by simp
    qed
  qed
qed

lemma yields_Yield:
  "search_loop ds room_type room_id author_id oldest_message_id cur w = (Yield y cur', w1, t1)
   \<Longrightarrow> yields ds room_type room_id author_id oldest_message_id cur' w1 = (ys, e, w2, t2)
   \<Longrightarrow> yields ds room_type room_id author_id oldest_message_id cur w
         = (y # ys, e, w2, t1 @ t2)"
  by (subst yields.simps) simp

lemma yields_StopIteration:
  "search_loop ds room_type room_id author_id oldest_message_id cur w = (StopIteration, w1, t1)
   \<Longrightarrow> yields ds room_type room_id author_id oldest_message_id cur w = ([], None, w1, t1)"
  by (subst yields.simps) simp

lemma yields_Raise:
  "search_loop ds room_type room_id author_id oldest_message_id cur w = (Raise e, w1, t1)
   \<Longrightarrow> yields ds room_type room_id author_id oldest_message_id cur w = ([], Some e, w1, t1)"
  by (subst yields.simps) simp

text \<open>
  What holds of everything yielded from a cursor on: the messages lie between the lower bound
  and the cursor's upper bound, and the running totals start above the cursor's total, each
  being the previous one plus the size of its batch.
\<close>

lemma yields_invariant:
  "yields ds room_type room_id author_id oldest_message_id cur w = (ys, e, w', t)
   \<Longrightarrow> (\<forall>(n, batch) \<in> set ys. \<forall>m \<in> set batch.
          oldest_message_id \<le> message_id m \<and> message_id m \<le> newest_message_id cur)
       \<and> (\<forall>i < length ys. fst (ys ! i) =
            total_results_size cur + (\<Sum>y \<leftarrow> take (Suc i) ys. int (length (snd y))))
       \<and> (\<forall>y \<in> set ys. total_results_size cur < fst y)
       \<and> sorted (map fst ys)"
proof (induction ds room_type room_id author_id oldest_message_id cur w arbitrary: ys e w' t
       rule: yields.induct)
  case (1 ds room_type room_id author_id oldest_message_id cur w)
  obtain step w1 t1 where sl:
    "search_loop ds room_type room_id author_id oldest_message_id cur w = (step, w1, t1)"
    by (metis prod_cases3)
  show ?case
  proof (cases step)
    case StopIteration
    with "1.prems" sl show ?thesis
      by (simp add: yields_StopIteration)
  next
    case (Raise err)
    with "1.prems" sl show ?thesis
      by (simp add: yields_Raise)
  next
    case (Yield y cur')
    obtain n batch where y: "y = (n, batch)"
      by (cases y)
    obtain ys2 e2 w2 t2 where rec:
      "yields ds room_type room_id author_id oldest_message_id cur' w1 = (ys2, e2, w2, t2)"
      by (metis prod_cases4)
    have ys: "ys = y # ys2"
      using "1.prems" yields_Yield [OF sl [unfolded Yield] rec] by simp
    note step = search_loop_Yield [OF sl [unfolded Yield y]]
    note ih = "1.IH" [OF sl [symmetric] Yield refl rec]
    have bounds: "\<forall>(n, batch) \<in> set ys. \<forall>m \<in> set batch.
          oldest_message_id \<le> message_id m \<and> message_id m \<le> newest_message_id cur"
      using ys y step ih by fastforce
    have sums: "\<forall>i < length ys. fst (ys ! i) =
            total_results_size cur + (\<Sum>y \<leftarrow> take (Suc i) ys. int (length (snd y)))"
    proof (intro allI impI)
      fix i
      assume i: "i < length ys"
      show "fst (ys ! i) =
              total_results_size cur + (\<Sum>y \<leftarrow> take (Suc i) ys. int (length (snd y)))"
      proof (cases i)
        case 0
        then show ?thesis
          using ys y step by simp
      next
        case (Suc k)
        then have "k < length ys2"
          using i ys by simp
        then have "fst (ys2 ! k) =
            total_results_size cur' + (\<Sum>y \<leftarrow> take (Suc k) ys2. int (length (snd y)))"
          using ih by blast
        then show ?thesis
          using Suc ys y step by simp
      qed
    qed
    have above: "\<forall>y \<in> set ys. total_results_size cur < fst y"
      using ys y step ih by fastforce
    have "sorted (map fst ys)"
      using ys y step ih by fastforce
    with bounds sums above show ?thesis
      by blast
  qed
qed

lemma request_returns:
  assumes "map_of HTTP_CODE_MESSAGES (IntKey (status_code res)) = None"
    and "\<not> (500 \<le> status_code res \<and> status_code res < 600)"
    and "status_code res \<noteq> 429"
  shows "request ds meth path ps dat (res # w) =
           (Inr (Some res), w,
            [Sleep ds, Http \<lparr>http_method = meth, url = API_URL @ path, params = ps, data = dat\<rparr>])"
  using assms by (simp add: request_def RATE_LIMITED_RETRY_def eval_nat_numeral)

lemma yields_bounds:
  assumes "(n, batch) \<in> set (fst (search_messages_by_author_id ds room_id room_type author_id
                                    oldest_message_id newest_id w))"
    and "m \<in> set batch"
  shows "oldest_message_id \<le> message_id m \<and> message_id m \<le> newest_id"
proof (cases "room_segment room_type")
  case (Inl e)
  with assms show ?thesis
    by (simp add: search_messages_by_author_id_def)
next
  case (Inr room_type')
  let ?cur = "\<lparr>offset = 0, total_results_size = 0, newest_message_id = newest_id\<rparr>"
  obtain ys e w' t where y:
    "yields ds room_type' room_id author_id oldest_message_id ?cur w = (ys, e, w', t)"
    by (metis prod_cases4)
  then have "(n, batch) \<in> set ys"
    using assms(1) Inr by (simp add: search_messages_by_author_id_def)
  then show ?thesis
    using yields_invariant [OF y] assms(2) by fastforce
qed

text \<open>
  C1. Whatever responses the remote service gives, every message of every batch that
  \<open>search_messages_by_author_id\<close> yields has its ID between \<open>oldest_message_id\<close> and
  \<open>newest_message_id\<close> as passed to the call.
\<close>

theorem yielded_messages_within_bounds:
  assumes "(n, batch) \<in> set (fst (search_messages_by_author_id ds room_id room_type author_id
                                    oldest_message_id newest_id w))"
    and "m \<in> set batch"
  shows "oldest_message_id \<le> message_id m \<and> message_id m \<le> newest_id"
  using assms by (rule yields_bounds)

theorem yielded_messages_within_bounds_witness:
  "(1, [\<lparr>message_id = 150, channel_id = 7, timestamp = ''a'', hit = Some True\<rparr>])
     \<in> set (fst (search_messages_by_author_id 0 5 ''channel'' 9 100 200
         [\<lparr>status_code = 200, res_text = '''',
           json = SearchPage 3
             [[\<lparr>message_id = 300, channel_id = 7, timestamp = ''c'', hit = Some True\<rparr>],
              [\<lparr>message_id = 151, channel_id = 7, timestamp = ''b'', hit = None\<rparr>,
               \<lparr>message_id = 150, channel_id = 7, timestamp = ''a'', hit = Some True\<rparr>]]\<rparr>]))
   \<and> (100 :: int) \<le> 150 \<and> (150 :: int) \<le> 200"
proof -
  have e: "fst (search_messages_by_author_id 0 5 ''channel'' 9 100 200
         [\<lparr>status_code = 200, res_text = '''',
           json = SearchPage 3
             [[\<lparr>message_id = 300, channel_id = 7, timestamp = ''c'', hit = Some True\<rparr>],
              [\<lparr>message_id = 151, channel_id = 7, timestamp = ''b'', hit = None\<rparr>,
               \<lparr>message_id = 150, channel_id = 7, timestamp = ''a'', hit = Some True\<rparr>]]\<rparr>])
     = [(1, [\<lparr>message_id = 150, channel_id = 7, timestamp = ''a'', hit = Some True\<rparr>])]"
    by code_simp
  show ?thesis
    using yielded_messages_within_bounds
      [of 1 "[\<lparr>message_id = 150, channel_id = 7, timestamp = ''a'', hit = Some True\<rparr>]"
          0 5 "''channel''" 9 100 200
          "[\<lparr>status_code = 200, res_text = '''',
           json = SearchPage 3
             [[\<lparr>message_id = 300, channel_id = 7, timestamp = ''c'', hit = Some True\<rparr>],
              [\<lparr>message_id = 151, channel_id = 7, timestamp = ''b'', hit = None\<rparr>,
               \<lparr>message_id = 150, channel_id = 7, timestamp = ''a'', hit = Some True\<rparr>]]\<rparr>]"
          "\<lparr>message_id = 150, channel_id = 7, timestamp = ''a'', hit = Some True\<rparr>"]
    by (simp add: e)
qed

lemma handle_page_stop:
  assumes "json res = SearchPage total_results blocks"
    and "extract_hits blocks = Inr hits"
    and "hits = [] \<or> message_id (hd hits) < oldest_message_id"
  shows "handle_page oldest_message_id cur (Some res) = Inl StopIteration"
  using assms by (auto simp: handle_page_def)

text \<open>
  C5. When the page fetched has no hit after the extraction, or its first hit has an ID below
  \<open>oldest_message_id\<close>, the generator finishes there: nothing is yielded from that point on and
  no further request is made. And no message yielded by a run has an ID below the
  \<open>oldest_message_id\<close> passed to the call.
\<close>

theorem sweep_ends_at_empty_or_old_page:
  "(request ds ''get'' (search_path room_type' room_id) (search_params author_id (offset cur))
        None w = (Inr (Some res), w1, t1)
      \<longrightarrow> json res = SearchPage total_results blocks
      \<longrightarrow> extract_hits blocks = Inr hits
      \<longrightarrow> hits = [] \<or> message_id (hd hits) < oldest_message_id
      \<longrightarrow> search_loop ds room_type' room_id author_id oldest_message_id cur w
            = (StopIteration, w1, t1)
          \<and> yields ds room_type' room_id author_id oldest_message_id cur w
            = ([], None, w1, t1))
   \<and> (\<forall>(n, batch) \<in> set (fst (search_messages_by_author_id ds room_id room_type author_id
                                    oldest_message_id newest_id w)).
         \<forall>m \<in> set batch. oldest_message_id \<le> message_id m)"
proof (intro conjI impI)
  assume req: "request ds ''get'' (search_path room_type' room_id)
                 (search_params author_id (offset cur)) None w = (Inr (Some res), w1, t1)"
    and "json res = SearchPage total_results blocks"
    and "extract_hits blocks = Inr hits"
    and "hits = [] \<or> message_id (hd hits) < oldest_message_id"
  then have "handle_page oldest_message_id cur (Some res) = Inl StopIteration"
    by (simp only: handle_page_stop)
  with req show s: "search_loop ds room_type' room_id author_id oldest_message_id cur w
                      = (StopIteration, w1, t1)"
    by (rule search_loop_leave)
  then show "yields ds room_type' room_id author_id oldest_message_id cur w
               = ([], None, w1, t1)"
    by (rule yields_StopIteration)
next
  show "\<forall>(n, batch) \<in> set (fst (search_messages_by_author_id ds room_id room_type author_id
                                    oldest_message_id newest_id w)).
          \<forall>m \<in> set batch. oldest_message_id \<le> message_id m"
    using yields_bounds by blast
qed

theorem sweep_ends_at_empty_or_old_page_witness:
  "yields 0 ''channels'' 5 9 100 \<lparr>offset = 0, total_results_size = 0, newest_message_id = 200\<rparr>
     [\<lparr>status_code = 200, res_text = '''',
       json = SearchPage 1
         [[\<lparr>message_id = 50, channel_id = 7, timestamp = ''a'', hit = Some True\<rparr>,
           \<lparr>message_id = 150, channel_id = 7, timestamp = ''b'', hit = Some True\<rparr>]]\<rparr>,
      \<lparr>status_code = 200, res_text = '''', json = SearchPage 0 []\<rparr>]
   = ([], None,
      [\<lparr>status_code = 200, res_text = '''', json = SearchPage 0 []\<rparr>],
      [Sleep 0,
       Http \<lparr>http_method = ''get'', url = API_URL @ search_path ''channels'' 5,
             params = search_params 9 0, data = None\<rparr>])
   \<and> yields 0 ''channels'' 5 9 100 \<lparr>offset = 0, total_results_size = 0, newest_message_id = 200\<rparr>
     [\<lparr>status_code = 200, res_text = '''', json = SearchPage 0 []\<rparr>]
   = ([], None, [],
      [Sleep 0,
       Http \<lparr>http_method = ''get'', url = API_URL @ search_path ''channels'' 5,
             params = search_params 9 0, data = None\<rparr>])
   \<and> fst (search_messages_by_author_id 0 5 ''channel'' 9 100 200
           [\<lparr>status_code = 200, res_text = '''',
             json = SearchPage 2
               [[\<lparr>message_id = 150, channel_id = 7, timestamp = ''b'', hit = Some True\<rparr>],
                [\<lparr>message_id = 50, channel_id = 7, timestamp = ''a'', hit = Some True\<rparr>]]\<rparr>])
     = [(1, [\<lparr>message_id = 150, channel_id = 7, timestamp = ''b'', hit = Some True\<rparr>])]
   \<and> (100 :: int) \<le> message_id \<lparr>message_id = 150, channel_id = 7, timestamp = ''b'',
                                    hit = Some True\<rparr>"
proof -
  let ?cur = "\<lparr>offset = 0, total_results_size = 0, newest_message_id = 200\<rparr>"
  let ?old = "\<lparr>status_code = 200, res_text = '''',
       json = SearchPage 1
         [[\<lparr>message_id = 50, channel_id = 7, timestamp = ''a'', hit = Some True\<rparr>,
           \<lparr>message_id = 150, channel_id = 7, timestamp = ''b'', hit = Some True\<rparr>]]\<rparr>"
  let ?empty = "\<lparr>status_code = 200, res_text = '''', json = SearchPage 0 []\<rparr>"
  let ?t = "[Sleep 0,
       Http \<lparr>http_method = ''get'', url = API_URL @ search_path ''channels'' 5,
             params = search_params 9 0, data = None\<rparr>]"
  have r1: "request 0 ''get'' (search_path ''channels'' 5) (search_params 9 (offset ?cur)) None
              [?old, ?empty] = (Inr (Some ?old), [?empty], ?t)"
    by (simp add: request_returns not_listed_iff)
  have r2: "request 0 ''get'' (search_path ''channels'' 5) (search_params 9 (offset ?cur)) None
              [?empty] = (Inr (Some ?empty), [], ?t)"
    by (simp add: request_returns not_listed_iff)
  have h: "extract_hits
             [[\<lparr>message_id = 50, channel_id = 7, timestamp = ''a'', hit = Some True\<rparr>,
               \<lparr>message_id = 150, channel_id = 7, timestamp = ''b'', hit = Some True\<rparr>]]
           = Inr [\<lparr>message_id = 50, channel_id = 7, timestamp = ''a'', hit = Some True\<rparr>]"
    by (simp add: first_hit_def is_hit_def)
  let ?w3 = "[\<lparr>status_code = 200, res_text = '''',
             json = SearchPage 2
               [[\<lparr>message_id = 150, channel_id = 7, timestamp = ''b'', hit = Some True\<rparr>],
                [\<lparr>message_id = 50, channel_id = 7, timestamp = ''a'', hit = Some True\<rparr>]]\<rparr>]"
  have e: "fst (search_messages_by_author_id 0 5 ''channel'' 9 100 200 ?w3)
     = [(1, [\<lparr>message_id = 150, channel_id = 7, timestamp = ''b'', hit = Some True\<rparr>])]"
    by code_simp
  have floor: "(100 :: int) \<le> message_id \<lparr>message_id = 150, channel_id = 7, timestamp = ''b'',
                                    hit = Some True\<rparr>"
    using sweep_ends_at_empty_or_old_page
            [where ds = 0 and room_id = 5 and room_type = "''channel''" and author_id = 9
               and oldest_message_id = 100 and newest_id = 200 and w = ?w3]
    by (simp add: e)
  show ?thesis
    using e floor
          sweep_ends_at_empty_or_old_page
            [of 0 "''channels''" 5 9 ?cur "[?old, ?empty]" ?old "[?empty]" ?t 1
                "[[\<lparr>message_id = 50, channel_id = 7, timestamp = ''a'', hit = Some True\<rparr>,
                   \<lparr>message_id = 150, channel_id = 7, timestamp = ''b'', hit = Some True\<rparr>]]"
                "[\<lparr>message_id = 50, channel_id = 7, timestamp = ''a'', hit = Some True\<rparr>]" 100]
          sweep_ends_at_empty_or_old_page
            [of 0 "''channels''" 5 9 ?cur "[?empty]" ?empty "[]" ?t 0 "[]" "[]" 100]
          r1 r2 h
    by simp
qed

text \<open>
  C6. In every run of the paginator the running totals of the successive yields never
  decrease, and each equals the sum of the sizes of the batches yielded up to and including
  its own.
\<close>

theorem running_total_is_sum_of_batch_sizes:
  "sorted (map fst (fst (search_messages_by_author_id ds room_id room_type author_id
                            oldest_message_id newest_id w)))
   \<and> (\<forall>i < length (fst (search_messages_by_author_id ds room_id room_type author_id
                            oldest_message_id newest_id w)).
         fst (fst (search_messages_by_author_id ds room_id room_type author_id
                     oldest_message_id newest_id w) ! i)
         = (\<Sum>y \<leftarrow> take (Suc i) (fst (search_messages_by_author_id ds room_id room_type
                                         author_id oldest_message_id newest_id w)).
              int (length (snd y))))"
proof (cases "room_segment room_type")
  case (Inl e)
  then show ?thesis
    by (simp add: search_messages_by_author_id_def)
next
  case (Inr room_type')
  let ?cur = "\<lparr>offset = 0, total_results_size = 0, newest_message_id = newest_id\<rparr>"
  obtain ys e w' t where y:
    "yields ds room_type' room_id author_id oldest_message_id ?cur w = (ys, e, w', t)"
    by (metis prod_cases4)
  then have "fst (search_messages_by_author_id ds room_id room_type author_id
                    oldest_message_id newest_id w) = ys"
    using Inr by (simp add: search_messages_by_author_id_def)
  then show ?thesis
    using yields_invariant [OF y] by simp
qed

theorem running_total_is_sum_of_batch_sizes_witness:
  "fst (search_messages_by_author_id 0 5 ''guild'' 9 100 200
     [\<lparr>status_code = 200, res_text = '''',
       json = SearchPage 3
         [[\<lparr>message_id = 200, channel_id = 7, timestamp = ''c'', hit = Some True\<rparr>],
          [\<lparr>message_id = 150, channel_id = 7, timestamp = ''b'', hit = Some True\<rparr>]]\<rparr>,
      \<lparr>status_code = 200, res_text = '''',
       json = SearchPage 3
         [[\<lparr>message_id = 100, channel_id = 7, timestamp = ''a'', hit = Some True\<rparr>]]\<rparr>,
      \<lparr>status_code = 200, res_text = '''', json = SearchPage 3 []\<rparr>])
   = [(2, [\<lparr>message_id = 200, channel_id = 7, timestamp = ''c'', hit = Some True\<rparr>,
           \<lparr>message_id = 150, channel_id = 7, timestamp = ''b'', hit = Some True\<rparr>]),
      (3, [\<lparr>message_id = 100, channel_id = 7, timestamp = ''a'', hit = Some True\<rparr>])]
   \<and> sorted [2, 3 :: int] \<and> (1 :: nat) < 2 \<and> (3 :: int) = 2 + 1"
proof -
  let ?w = "[\<lparr>status_code = 200, res_text = '''',
       json = SearchPage 3
         [[\<lparr>message_id = 200, channel_id = 7, timestamp = ''c'', hit = Some True\<rparr>],
          [\<lparr>message_id = 150, channel_id = 7, timestamp = ''b'', hit = Some True\<rparr>]]\<rparr>,
      \<lparr>status_code = 200, res_text = '''',
       json = SearchPage 3
         [[\<lparr>message_id = 100, channel_id = 7, timestamp = ''a'', hit = Some True\<rparr>]]\<rparr>,
      \<lparr>status_code = 200, res_text = '''', json = SearchPage 3 []\<rparr>]"
  have e: "fst (search_messages_by_author_id 0 5 ''guild'' 9 100 200 ?w)
     = [(2, [\<lparr>message_id = 200, channel_id = 7, timestamp = ''c'', hit = Some True\<rparr>,
             \<lparr>message_id = 150, channel_id = 7, timestamp = ''b'', hit = Some True\<rparr>]),
        (3, [\<lparr>message_id = 100, channel_id = 7, timestamp = ''a'', hit = Some True\<rparr>])]"
    by code_simp
  note total = running_total_is_sum_of_batch_sizes [of 0 5 "''guild''" 9 100 200 ?w]
  have "sorted (map fst (fst (search_messages_by_author_id 0 5 ''guild'' 9 100 200 ?w)))"
    using total by (rule conjunct1)
  moreover have "fst (fst (search_messages_by_author_id 0 5 ''guild'' 9 100 200 ?w) ! 1)
      = (\<Sum>y \<leftarrow> take (Suc 1) (fst (search_messages_by_author_id 0 5 ''guild'' 9 100 200 ?w)).
           int (length (snd y)))"
    using total by (simp add: e)
  ultimately show ?thesis
    by (simp add: e)
qed

lemma extract_hits_IndexError:
  "extract_hits blocks = Inl IndexError \<longleftrightarrow> (\<exists>b \<in> set blocks. \<forall>m \<in> set b. \<not> is_hit m)"
proof (induction blocks)
  case Nil
  then show ?case by simp
next
  case (Cons b blocks)
  have "filter is_hit b = [] \<longleftrightarrow> (\<forall>m \<in> set b. \<not> is_hit m)"
    by (simp add: filter_empty_conv)
  then show ?case
    using Cons by (auto simp: first_hit_def split: list.splits sum.splits)
qed

text \<open>
  C10. The extraction of the hits of a page raises \<open>IndexError\<close> exactly when some block of
  the page has no message flagged as a hit; on such a page the generator raises that error:
  it neither skips the block nor yields.
\<close>

theorem block_without_hit_raises:
  "(extract_hits blocks = Inl IndexError \<longleftrightarrow> (\<exists>b \<in> set blocks. \<forall>m \<in> set b. \<not> is_hit m))
   \<and> (request ds ''get'' (search_path room_type' room_id) (search_params author_id (offset cur))
         None w = (Inr (Some res), w1, t1)
      \<longrightarrow> json res = SearchPage total_results blocks
      \<longrightarrow> (\<exists>b \<in> set blocks. \<forall>m \<in> set b. \<not> is_hit m)
      \<longrightarrow> search_loop ds room_type' room_id author_id oldest_message_id cur w
            = (Raise IndexError, w1, t1)
          \<and> yields ds room_type' room_id author_id oldest_message_id cur w
            = ([], Some IndexError, w1, t1))"
proof (intro conjI impI)
  show "extract_hits blocks = Inl IndexError \<longleftrightarrow> (\<exists>b \<in> set blocks. \<forall>m \<in> set b. \<not> is_hit m)"
    by (rule extract_hits_IndexError)
next
  assume req: "request ds ''get'' (search_path room_type' room_id)
                 (search_params author_id (offset cur)) None w = (Inr (Some res), w1, t1)"
    and j: "json res = SearchPage total_results blocks"
    and "\<exists>b \<in> set blocks. \<forall>m \<in> set b. \<not> is_hit m"
  then have "extract_hits blocks = Inl IndexError"
    by (simp only: extract_hits_IndexError)
  with j have "handle_page oldest_message_id cur (Some res) = Inl (Raise IndexError)"
    by (simp add: handle_page_def)
  with req show s: "search_loop ds room_type' room_id author_id oldest_message_id cur w
                      = (Raise IndexError, w1, t1)"
    by (rule search_loop_leave)
  then show "yields ds room_type' room_id author_id oldest_message_id cur w
               = ([], Some IndexError, w1, t1)"
    by (rule yields_Raise)
qed

theorem block_without_hit_raises_witness:
  "extract_hits
     [[\<lparr>message_id = 150, channel_id = 7, timestamp = ''b'', hit = Some True\<rparr>],
      [\<lparr>message_id = 140, channel_id = 7, timestamp = ''a'', hit = Some False\<rparr>,
       \<lparr>message_id = 139, channel_id = 7, timestamp = ''a'', hit = None\<rparr>]] = Inl IndexError
   \<and> yields 0 ''channels'' 5 9 100 \<lparr>offset = 0, total_results_size = 0, newest_message_id = 200\<rparr>
       [\<lparr>status_code = 200, res_text = '''',
         json = SearchPage 2
           [[\<lparr>message_id = 150, channel_id = 7, timestamp = ''b'', hit = Some True\<rparr>],
            [\<lparr>message_id = 140, channel_id = 7, timestamp = ''a'', hit = Some False\<rparr>,
             \<lparr>message_id = 139, channel_id = 7, timestamp = ''a'', hit = None\<rparr>]]\<rparr>]
     = ([], Some IndexError, [],
        [Sleep 0,
         Http \<lparr>http_method = ''get'', url = API_URL @ search_path ''channels'' 5,
               params = search_params 9 0, data = None\<rparr>])"
proof -
  let ?cur = "\<lparr>offset = 0, total_results_size = 0, newest_message_id = 200\<rparr>"
  let ?blocks = "[[\<lparr>message_id = 150, channel_id = 7, timestamp = ''b'', hit = Some True\<rparr>],
      [\<lparr>message_id = 140, channel_id = 7, timestamp = ''a'', hit = Some False\<rparr>,
       \<lparr>message_id = 139, channel_id = 7, timestamp = ''a'', hit = None\<rparr>]]"
  let ?res = "\<lparr>status_code = 200, res_text = '''', json = SearchPage 2 ?blocks\<rparr>"
  let ?t = "[Sleep 0,
       Http \<lparr>http_method = ''get'', url = API_URL @ search_path ''channels'' 5,
             params = search_params 9 0, data = None\<rparr>]"
  have r: "request 0 ''get'' (search_path ''channels'' 5) (search_params 9 (offset ?cur)) None
             [?res] = (Inr (Some ?res), [], ?t)"
    by (simp add: request_returns not_listed_iff)
  show ?thesis
    using block_without_hit_raises [of ?blocks 0 "''channels''" 5 9 ?cur "[?res]" ?res "[]" ?t 2 100]
          r
    by (simp add: is_hit_def)
qed

section \<open>Properties of the mutation driver and the orchestrator\<close>

lemma set_http_calls: "c \<in> set (http_calls t) \<longleftrightarrow> Http c \<in> set t"
  by (induction t rule: http_calls.induct) auto

lemma attempts_calls:
  "attempts n c0 w = (r, w', t) \<Longrightarrow> Http c \<in> set t \<Longrightarrow> c = c0"
proof (induction n c0 w arbitrary: r w' t rule: attempts.induct)
  case (3 n c0 res w)
  then show ?case
    by (auto simp: Let_def split: if_splits body.splits prod.splits)
qed auto

lemma request_calls:
  assumes "request ds meth path ps dat w = (r, w', t)" and "Http c \<in> set t"
  shows "http_method c = meth"
proof -
  obtain r0 t0 where a: "attempts RATE_LIMITED_RETRY
      \<lparr>http_method = meth, url = API_URL @ path, params = ps, data = dat\<rparr> w = (r0, w', t0)"
    and t: "t = Sleep ds # t0 \<or> (\<exists>l s. t = Sleep ds # t0 @ [Log l s])"
    using assms(1) unfolding request_def
    by (auto split: prod.splits sum.splits option.splits)
  have "Http c \<in> set t0"
    using t assms(2) by auto
  then have "c = \<lparr>http_method = meth, url = API_URL @ path, params = ps, data = dat\<rparr>"
    using a by (rule attempts_calls [rotated])
  then show ?thesis
    by simp
qed

lemma modify_calls:
  assumes "modify_channel_message_by_message_id ds channel message txt w = (r, w', t)"
    and "Http c \<in> set t"
  shows "http_method c = ''patch''"
proof -
  obtain r0 t0 where q: "request ds ''patch'' (message_path channel message) []
      (Some (''{'' @ [CHR 0x22] @ ''content'' @ [CHR 0x22] @ '': '' @ [CHR 0x22] @ txt
             @ [CHR 0x22] @ ''}'')) w = (r0, w', t0)"
    and t: "t = t0 \<or> (\<exists>l1 s1 l2 s2 l3 s3. t = t0 @ [Log l1 s1, Log l2 s2, Log l3 s3])"
    using assms(1) unfolding modify_channel_message_by_message_id_def
    by (auto split: prod.splits sum.splits error.splits)
  have "Http c \<in> set t0"
    using t assms(2) by auto
  with q show ?thesis
    by (rule request_calls)
qed

lemma delete_calls:
  assumes "delete_channel_message_by_message_id ds channel message w = (r, w', t)"
    and "Http c \<in> set t"
  shows "http_method c = ''delete''"
proof -
  obtain r0 t0 where q: "request ds ''delete'' (message_path channel message) [] None w
      = (r0, w', t0)"
    and t: "t = t0 \<or> (\<exists>l1 s1 l2 s2 l3 s3. t = t0 @ [Log l1 s1, Log l2 s2, Log l3 s3])"
    using assms(1) unfolding delete_channel_message_by_message_id_def
    by (auto split: prod.splits sum.splits error.splits)
  have "Http c \<in> set t0"
    using t assms(2) by auto
  with q show ?thesis
    by (rule request_calls)
qed

text \<open>
  How \<open>process_message\<close> goes on from the result of the replace call when a replace is
  requested.
\<close>

lemma process_message_replace:
  assumes "replace_before_delete \<noteq> ''none''"
    and "txt = (if replace_before_delete = ''random'' then generate_random (random_calls st)
                else replace_to st)"
    and "modify_channel_message_by_message_id ds (channel_id msg) (message_id msg) txt w
           = (ok, w1, t1)"
    and "process_message ds replace_before_delete generate_random st msg w = (r, w', t)"
  shows "ok = Inr False \<Longrightarrow>
           (\<exists>st'. r = Inr st' \<and> failed_count st' = failed_count st + 1) \<and> w' = w1 \<and> t = t1"
    and "ok = Inr True \<Longrightarrow>
           \<exists>rd t2. delete_channel_message_by_message_id ds (channel_id msg) (message_id msg) w1
                     = (rd, w', t2) \<and> t = t1 @ t2"
    and "\<And>e. ok = Inl e \<Longrightarrow> r = Inl e \<and> w' = w1 \<and> t = t1"
  using assms
  by (auto simp: process_message_def Let_def split: if_splits prod.splits sum.splits bool.splits)

text \<open>
  C4. When a replace is requested (the mode is not \<open>none\<close>): if the replace call returns
  failure, no delete call is made for the message and the failure count grows by exactly one;
  and every delete call made for the message comes after the whole replace call, which
  returned success.
\<close>

theorem delete_only_after_successful_replace:
  assumes "replace_before_delete \<noteq> ''none''"
    and "txt = (if replace_before_delete = ''random'' then generate_random (random_calls st)
                else replace_to st)"
    and "modify_channel_message_by_message_id ds (channel_id msg) (message_id msg) txt w
           = (ok, w1, t1)"
    and "process_message ds replace_before_delete generate_random st msg w = (r, w', t)"
  shows "(ok = Inr False \<longrightarrow>
            (\<exists>st'. r = Inr st' \<and> failed_count st' = failed_count st + 1)
            \<and> w' = w1 \<and> t = t1
            \<and> (\<forall>c. Http c \<in> set t \<longrightarrow> http_method c \<noteq> ''delete''))
         \<and> (\<forall>c. Http c \<in> set t \<and> http_method c = ''delete'' \<longrightarrow>
               ok = Inr True
               \<and> (\<exists>t2. t = t1 @ t2 \<and> Http c \<in> set t2 \<and> Http c \<notin> set t1))"
proof (intro conjI impI allI)
  assume f: "ok = Inr False"
  note step = process_message_replace(1) [OF assms f]
  show "\<exists>st'. r = Inr st' \<and> failed_count st' = failed_count st + 1"
    using step by blast
  show "w' = w1" and "t = t1"
    using step by blast+
next
  fix c
  assume f: "ok = Inr False" and c: "Http c \<in> set t"
  have "t = t1"
    using process_message_replace(1) [OF assms f] by blast
  then have "http_method c = ''patch''"
    using modify_calls [OF assms(3)] c by blast
  then show "http_method c \<noteq> ''delete''"
    by simp
next
  fix c
  assume c: "Http c \<in> set t \<and> http_method c = ''delete''"
  have not_t1: "Http c \<notin> set t1"
    using modify_calls [OF assms(3), of c] c by auto
  show ok: "ok = Inr True"
  proof (cases ok)
    case (Inl e)
    then have "t = t1"
      using process_message_replace(3) [OF assms] by blast
    with c not_t1 show ?thesis
      by simp
  next
    case (Inr b)
    show ?thesis
    proof (cases b)
      case True
      with Inr show ?thesis by simp
    next
      case False
      then have "t = t1"
        using process_message_replace(1) [OF assms] Inr by blast
      with c not_t1 show ?thesis
        by simp
    qed
  qed
  obtain rd t2 where "t = t1 @ t2"
    using process_message_replace(2) [OF assms ok] by blast
  then show "\<exists>t2. t = t1 @ t2 \<and> Http c \<in> set t2 \<and> Http c \<notin> set t1"
    using c not_t1 by auto
qed

theorem delete_only_after_successful_replace_witness:
  "fst (modify_channel_message_by_message_id 0 7 9 ''x''
          [\<lparr>status_code = 403, res_text = ''no'', json = OtherBody\<rparr>]) = Inr False
   \<and> (\<exists>st'. fst (process_message 0 ''fixed'' (\<lambda>n. ''r'')
                    \<lparr>first_message_id = 0, newest_message_datetime = None, failed_count = 0,
                      replace_to = ''x'', last_message = None, random_calls = 0\<rparr>
                    \<lparr>message_id = 9, channel_id = 7, timestamp = ''a'', hit = Some True\<rparr>
                    [\<lparr>status_code = 403, res_text = ''no'', json = OtherBody\<rparr>]) = Inr st'
             \<and> failed_count st' = 1)
   \<and> ''delete'' \<notin> set (map http_method (http_calls (snd (snd
            (process_message 0 ''fixed'' (\<lambda>n. ''r'')
                    \<lparr>first_message_id = 0, newest_message_datetime = None, failed_count = 0,
                      replace_to = ''x'', last_message = None, random_calls = 0\<rparr>
                    \<lparr>message_id = 9, channel_id = 7, timestamp = ''a'', hit = Some True\<rparr>
                    [\<lparr>status_code = 403, res_text = ''no'', json = OtherBody\<rparr>])))))"
proof -
  let ?st = "\<lparr>first_message_id = 0, newest_message_datetime = None, failed_count = 0,
              replace_to = ''x'', last_message = None, random_calls = 0\<rparr>"
  let ?msg = "\<lparr>message_id = 9, channel_id = 7, timestamp = ''a'', hit = Some True\<rparr>"
  let ?w = "[\<lparr>status_code = 403, res_text = ''no'', json = OtherBody\<rparr>]"
  let ?M = "modify_channel_message_by_message_id 0 (channel_id ?msg) (message_id ?msg) ''x'' ?w"
  let ?P = "process_message 0 ''fixed'' (\<lambda>n. ''r'') ?st ?msg ?w"
  have h1: "''fixed'' \<noteq> ''none''"
    by simp
  have h2: "''x'' = (if ''fixed'' = ''random'' then (\<lambda>n. ''r'') (random_calls ?st)
                     else replace_to ?st)"
    by simp
  have h3: "?M = (fst ?M, fst (snd ?M), snd (snd ?M))"
    by simp
  have h4: "?P = (fst ?P, fst (snd ?P), snd (snd ?P))"
    by simp
  have m: "fst ?M = Inr False"
    by (simp add: modify_channel_message_by_message_id_def request_def RATE_LIMITED_RETRY_def
                  eval_nat_numeral HTTP_CODE_MESSAGES_def DiscordApiError_init_def)
  note step = delete_only_after_successful_replace [OF h1 h2 h3 h4]
  have a: "\<exists>st'. fst ?P = Inr st' \<and> failed_count st' = failed_count ?st + 1"
    using step m by blast
  have "\<forall>c. Http c \<in> set (snd (snd ?P)) \<longrightarrow> http_method c \<noteq> ''delete''"
    using step m by blast
  then have b: "''delete'' \<notin> set (map http_method (http_calls (snd (snd ?P))))"
    by (auto simp: set_http_calls)
  have "fst (modify_channel_message_by_message_id 0 7 9 ''x'' ?w) = Inr False"
    using m by simp
  moreover have "\<exists>st'. fst ?P = Inr st' \<and> failed_count st' = 1"
    using a by simp
  ultimately show ?thesis
    using b by blast
qed

lemma main_loop_StopIteration:
  "search_loop ds room_type room_id author_id oldest_message_id cur w = (StopIteration, w1, t1)
   \<Longrightarrow> main_loop ds room_type room_id author_id oldest_message_id replace_before_delete
         generate_random cur (tot, st) w = (Inr (tot, st), w1, t1)"
  by (subst main_loop.simps) simp

text \<open>
  C9. When the first search page has no hit, the paginator yields nothing and finishes,
  \<open>main\<close> returns with \<open>total_results_size\<close> equal to 0 after logging that there is nothing
  to delete, and the only HTTP calls of the run are the search call's: no replace and no
  delete call is made.
\<close>

theorem empty_history_no_mutation:
  assumes "room_segment room_type = Inr room_type'"
    and "request ds ''get'' (search_path room_type' room_id) (search_params author_id 0) None w
           = (Inr (Some res), w1, t1)"
    and "json res = SearchPage total_results blocks"
    and "extract_hits blocks = Inr []"
  shows "search_messages_by_author_id ds room_id room_type author_id oldest_message_id
           newest_id w = ([], None, w1, t1)
         \<and> main room_id room_type author_id newest_id oldest_message_id replace_before_delete
             replace_to_arg ds generate_random w
           = (Inr (0, \<lparr>first_message_id = 0, newest_message_datetime = None, failed_count = 0,
                       replace_to = replace_to_arg, last_message = None, random_calls = 0\<rparr>),
              w1,
              [Log INFO ''Started!''] @ t1
                @ [Log INFO '''', Log INFO ''There are no messages to bulky delete...''])
         \<and> (\<forall>c. Http c \<in> set (snd (snd (main room_id room_type author_id newest_id
                      oldest_message_id replace_before_delete replace_to_arg ds
                      generate_random w)))
               \<longrightarrow> http_method c = ''get'')"
proof -
  let ?cur = "\<lparr>offset = 0, total_results_size = 0, newest_message_id = newest_id\<rparr>"
  have req: "request ds ''get'' (search_path room_type' room_id)
               (search_params author_id (offset ?cur)) None w = (Inr (Some res), w1, t1)"
    using assms(2) by simp
  have "handle_page oldest_message_id ?cur (Some res) = Inl StopIteration"
    using assms(3,4) by (simp add: handle_page_stop)
  with req have stop: "search_loop ds room_type' room_id author_id oldest_message_id ?cur w
                         = (StopIteration, w1, t1)"
    by (rule search_loop_leave)
  have gen: "search_messages_by_author_id ds room_id room_type author_id oldest_message_id
               newest_id w = ([], None, w1, t1)"
    using assms(1) yields_StopIteration [OF stop]
    by (simp add: search_messages_by_author_id_def)
  have run: "main room_id room_type author_id newest_id oldest_message_id replace_before_delete
               replace_to_arg ds generate_random w
             = (Inr (0, \<lparr>first_message_id = 0, newest_message_datetime = None,
                         failed_count = 0, replace_to = replace_to_arg, last_message = None,
                         random_calls = 0\<rparr>),
                w1,
                [Log INFO ''Started!''] @ t1
                  @ [Log INFO '''', Log INFO ''There are no messages to bulky delete...''])"
    using assms(1) main_loop_StopIteration [OF stop]
    by (simp add: main_def)
  have "\<forall>c. Http c \<in> set t1 \<longrightarrow> http_method c = ''get''"
    using request_calls [OF assms(2)] by blast
  then have "\<forall>c. Http c \<in> set (snd (snd (main room_id room_type author_id newest_id
                      oldest_message_id replace_before_delete replace_to_arg ds
                      generate_random w)))
               \<longrightarrow> http_method c = ''get''"
    by (auto simp: run)
  with gen run show ?thesis
    by blast
qed

theorem empty_history_no_mutation_witness:
  "main 5 ''guild'' 9 200 100 ''fixed'' ''x'' 0 (\<lambda>n. ''r'')
     [\<lparr>status_code = 200, res_text = '''', json = SearchPage 0 []\<rparr>]
   = (Inr (0, \<lparr>first_message_id = 0, newest_message_datetime = None, failed_count = 0,
               replace_to = ''x'', last_message = None, random_calls = 0\<rparr>),
      [],
      [Log INFO ''Started!'', Sleep 0,
       Http \<lparr>http_method = ''get'', url = API_URL @ search_path ''guilds'' 5,
             params = search_params 9 0, data = None\<rparr>,
       Log INFO '''', Log INFO ''There are no messages to bulky delete...''])
   \<and> search_messages_by_author_id 0 5 ''guild'' 9 100 200
       [\<lparr>status_code = 200, res_text = '''', json = SearchPage 0 []\<rparr>]
     = ([], None, [],
        [Sleep 0,
         Http \<lparr>http_method = ''get'', url = API_URL @ search_path ''guilds'' 5,
               params = search_params 9 0, data = None\<rparr>])"
proof -
  let ?res = "\<lparr>status_code = 200, res_text = '''', json = SearchPage 0 []\<rparr>"
  have h1: "room_segment ''guild'' = Inr ''guilds''"
    by (simp add: room_segment_def lower_def lower_char_def)
  have h2: "request 0 ''get'' (search_path ''guilds'' 5) (search_params 9 0) None [?res]
              = (Inr (Some ?res), [],
                 [Sleep 0,
                  Http \<lparr>http_method = ''get'', url = API_URL @ search_path ''guilds'' 5,
                        params = search_params 9 0, data = None\<rparr>])"
    by (simp add: request_returns not_listed_iff)
  have h3: "json ?res = SearchPage 0 []"
    by simp
  have h4: "extract_hits [] = Inr []"
    by simp
  show ?thesis
    using empty_history_no_mutation
            [OF h1 h2 h3 h4, where oldest_message_id = 100 and newest_id = 200
               and replace_before_delete = "''fixed''" and replace_to_arg = "''x''"
               and generate_random = "\<lambda>n. ''r''"]
    by simp
qed

end
